theory Spec2Isabelle
  imports Complex_Main "HOL-Library.Word" "HOL-Library.AList"
begin

section \<open>A directory integrity monitor (monitor.py)\<close>

text \<open>
  The monitor scans a directory, compares every file with a baseline of digests kept in a
  JSON file, logs what it finds and mails an alert for a changed file. The model passes
  the outside world (file system, log, mail) explicitly as a record; every function that
  has an effect returns the new world, and every exception of the source is a value
  \<open>Inl e\<close> of a sum type. The effects made before an exception stay in the returned world.

  A Python \<open>dict\<close> is an association list with distinct keys in insertion order:
  \<open>d[k] = v\<close> is \<open>AList.update k v d\<close> (an existing key keeps its place, a new one goes
  to the end), \<open>d.pop(k, None)\<close> is \<open>AList.delete k d\<close>, \<open>k in d\<close> is
  \<open>k \<in> set (map fst d)\<close> and \<open>d[k]\<close> is \<open>map_of d k\<close>.

  A string of the model is a byte string. A file name is the bytes that the file system
  holds for it: Python decodes them with \<open>surrogateescape\<close>, so a name that is not
  well-formed UTF-8 is a \<open>str\<close> with lone surrogates, which the UTF-8 encoder of a text
  file refuses.
\<close>

subsection \<open>Data\<close>

type_synonym bytes = "8 word list"

text \<open>The value of \<open>files[rel]\<close> in \<open>scan_directory\<close>: \<open>{"path", "mtime", "size"}\<close>.\<close>

record file_meta =
  path :: string
  mtime_m :: rat
  size_m :: int

text \<open>
  An entry of the baseline, \<open>{"hash", "mtime", "size"}\<close>. The code reads the digest with
  \<open>db[rel].get("hash")\<close>, which gives \<open>None\<close> for an entry without that key, so the
  digest is optional.
  The baseline is a JSON object of such entries; a baseline file that holds a JSON
  document of another shape is outside the model.
\<close>

record entry =
  hash :: "string option"
  mtime :: rat
  size_e :: int

type_synonym snapshot = "(string \<times> file_meta) list"
type_synonym baseline = "(string \<times> entry) list"

text \<open>
  The exceptions that the program meets. \<open>FileNotFoundError\<close> is the one that
  \<open>perform_check\<close> raises itself; \<open>OSError\<close> stands for every error of a call to the
  operating system (\<open>open\<close>, a read or a write, \<open>os.path.getmtime\<close>), whatever its
  subclass, with its message. \<open>str_error\<close> is \<open>str(e)\<close>, the message.
\<close>

datatype error =
    FileNotFoundError string
  | OSError string
  | JSONDecodeError string
  | ValueError string
  | OverflowError string
  | RecursionError string
  | UnicodeDecodeError string
  | UnicodeEncodeError string

fun str_error :: "error \<Rightarrow> string" where
  "str_error (FileNotFoundError m) = m"
| "str_error (OSError m) = m"
| "str_error (JSONDecodeError m) = m"
| "str_error (ValueError m) = m"
| "str_error (OverflowError m) = m"
| "str_error (RecursionError m) = m"
| "str_error (UnicodeDecodeError m) = m"
| "str_error (UnicodeEncodeError m) = m"

datatype level = INFO | WARNING | ALERT

text \<open>A line of the security log: level, message and the file name it is about.\<close>

type_synonym event = "level \<times> string \<times> string option"

text \<open>
  What \<open>json.load\<close> makes of the text of a file: it returns a baseline, or it raises
  \<open>JSONDecodeError\<close> (\<open>Malformed\<close>), or it raises another exception: \<open>UnicodeDecodeError\<close>
  for bytes that are not UTF-8, \<open>RecursionError\<close> for a deep nesting, \<open>ValueError\<close> for an
  integer of too many digits. The text that \<open>json.dump\<close> writes for a baseline, when it
  writes all of it, is a text that \<open>json.load\<close> reads as that baseline.
\<close>

datatype json_content = Document baseline | Malformed | Unloadable error

text \<open>
  A text file the program opens by name (the baseline file). \<open>hidden\<close> holds the error of
  \<open>os.stat\<close> for a file that cannot be reached (under a directory without search
  permission): \<open>os.path.exists\<close> is then false, and no \<open>open\<close> succeeds. \<open>read_error\<close> and
  \<open>write_error\<close> hold the message of the \<open>OSError\<close> that \<open>open(path, "r")\<close> and
  \<open>open(path, "w")\<close> raise, if they do.
\<close>

record text_file =
  hidden :: "string option"
  read_error :: "string option"
  write_error :: "string option"
  file_content :: json_content

text \<open>
  One file that \<open>os.walk\<close> meets: its path relative to the directory, its full path, and
  what \<open>os.path.getmtime\<close> and \<open>os.path.getsize\<close> give for it (\<open>Inl\<close> the message of the
  \<open>OSError\<close>, as for a broken link).
\<close>

type_synonym walked = "string \<times> string \<times> (string + rat \<times> int)"

text \<open>The SMTP configuration as far as the check uses it; \<open>None\<close> is also the empty dict.\<close>

record smtp =
  enabled :: bool
  to_addr :: "string option"

text \<open>
  The world. \<open>walk\<close> gives, for a directory, the files that \<open>os.walk\<close> meets; \<open>content\<close>
  is what \<open>open(path, "rb")\<close> and the reads give (\<open>Inl\<close> the message of the \<open>OSError\<close>);
  \<open>create_error\<close> is the error of \<open>open(path, "w")\<close> for a path with no file;
  \<open>write_fault\<close> is the \<open>OSError\<close> that stops the writing of a file that is open (a
  failing or full disk), with the answer whether it cuts the text inside a character; \<open>sleep_limit\<close> is the
  longest interval that \<open>time.sleep\<close> takes (9223372036 seconds in CPython with a 64-bit
  clock); \<open>clock\<close> is the reading of \<open>datetime.now()\<close>, one value for the whole run.
  Output to the console is not modelled.
\<close>

record world =
  isdir :: "string \<Rightarrow> bool"
  walk :: "string \<Rightarrow> walked list"
  content :: "string \<Rightarrow> string + bytes"
  store :: "string \<Rightarrow> text_file option"
  create_error :: "string \<Rightarrow> string option"
  write_fault :: "string \<Rightarrow> (string \<times> bool) option"
  configs :: "string \<Rightarrow> (error + smtp option) option"
  smtp_up :: bool
  sleep_limit :: int
  clock :: string
  security_log :: "event list"
  outbox :: "(string \<times> string \<times> string option) list"

text \<open>
  The hash object of \<open>hashlib\<close> (\<open>new\<close>, \<open>update\<close>, \<open>hexdigest\<close>), which the program
  calls and the repository does not hold, is a parameter of the model.
\<close>

record 'h library =
  new_h :: 'h
  update_h :: "'h \<Rightarrow> bytes \<Rightarrow> 'h"
  hexdigest :: "'h \<Rightarrow> string"

subsection \<open>SecurityLogger\<close>

text \<open>\<open>if filename:\<close> takes the empty string like \<open>None\<close>.\<close>

definition file_name :: "string option \<Rightarrow> string option" where
  "file_name fn = (case fn of None \<Rightarrow> None | Some f \<Rightarrow> if f = [] then None else Some f)"

definition logger_info :: "string \<Rightarrow> string option \<Rightarrow> world \<Rightarrow> world" where
  "logger_info message fn w = w\<lparr>security_log := security_log w @ [(INFO, message, file_name fn)]\<rparr>"

definition logger_warning :: "string \<Rightarrow> string option \<Rightarrow> world \<Rightarrow> world" where
  "logger_warning message fn w =
     w\<lparr>security_log := security_log w @ [(WARNING, message, file_name fn)]\<rparr>"

definition logger_alert :: "string \<Rightarrow> string option \<Rightarrow> world \<Rightarrow> world" where
  "logger_alert message fn w = w\<lparr>security_log := security_log w @ [(ALERT, message, file_name fn)]\<rparr>"

subsection \<open>hash_file\<close>

text \<open>
  \<open>for chunk in iter(lambda: f.read(4096), b""): h.update(chunk)\<close>: the file is read in
  pieces of 4096 bytes until a read gives nothing.
\<close>

function read_chunks :: "'h library \<Rightarrow> 'h \<Rightarrow> bytes \<Rightarrow> 'h" where
  "read_chunks L h rest =
     (let chunk = take 4096 rest
      in if chunk = [] then h else read_chunks L (update_h L h chunk) (drop 4096 rest))"
  by pat_completeness auto
termination
  by (relation "measure (\<lambda>(L, h, rest). length rest)") auto

declare read_chunks.simps [simp del]

definition hash_file :: "'h library \<Rightarrow> world \<Rightarrow> string \<Rightarrow> error + string" where
  "hash_file L w p =
     (case content w p of
        Inl m \<Rightarrow> Inl (OSError m)
      | Inr bs \<Rightarrow> Inr (hexdigest L (read_chunks L (new_h L) bs)))"

subsection \<open>send_email\<close>

text \<open>
  Without a configuration, or with a disabled one, the mail is simulated and the result is
  \<open>True\<close>; otherwise every failure of the delivery is caught and gives \<open>False\<close>. The
  outbox records every call.
\<close>

definition send_email ::
  "smtp option \<Rightarrow> string \<Rightarrow> string \<Rightarrow> string option \<Rightarrow> world \<Rightarrow> bool \<times> world" where
  "send_email smtp_cfg subject body to w =
     (let w' = w\<lparr>outbox := outbox w @ [(subject, body, to)]\<rparr>
      in case smtp_cfg of
           None \<Rightarrow> (True, w')
         | Some cfg \<Rightarrow> if \<not> enabled cfg then (True, w') else (smtp_up w, w'))"

subsection \<open>Text that UTF-8 can encode\<close>

text \<open>
  The well-formed UTF-8 byte sequences (Unicode, table 3-7). The baseline file is opened
  with \<open>encoding="utf-8"\<close> and written with \<open>ensure_ascii=False\<close>: a key or a digest that
  is not well-formed, a \<open>str\<close> with a lone surrogate, is written as it is and refused by
  the encoder of the file with \<open>UnicodeEncodeError\<close>.
\<close>

definition cont :: "nat \<Rightarrow> bool" where
  "cont b \<longleftrightarrow> 0x80 \<le> b \<and> b \<le> 0xBF"

fun utf8 :: "nat list \<Rightarrow> bool" where
  "utf8 [] = True"
| "utf8 (a # bs) =
     (if a < 0x80 then utf8 bs
      else if 0xC2 \<le> a \<and> a \<le> 0xDF then
        (case bs of b # cs \<Rightarrow> cont b \<and> utf8 cs | _ \<Rightarrow> False)
      else if 0xE0 \<le> a \<and> a \<le> 0xEF then
        (case bs of
           b # c # ds \<Rightarrow>
             (if a = 0xE0 then 0xA0 \<le> b \<and> b \<le> 0xBF
              else if a = 0xED then 0x80 \<le> b \<and> b \<le> 0x9F else cont b)
             \<and> cont c \<and> utf8 ds
         | _ \<Rightarrow> False)
      else if 0xF0 \<le> a \<and> a \<le> 0xF4 then
        (case bs of
           b # c # d # es \<Rightarrow>
             (if a = 0xF0 then 0x90 \<le> b \<and> b \<le> 0xBF
              else if a = 0xF4 then 0x80 \<le> b \<and> b \<le> 0x8F else cont b)
             \<and> cont c \<and> cont d \<and> utf8 es
         | _ \<Rightarrow> False)
      else False)"

definition valid_utf8 :: "string \<Rightarrow> bool" where
  "valid_utf8 s = utf8 (map of_char s)"

definition encodable :: "baseline \<Rightarrow> bool" where
  "encodable d =
     list_all (\<lambda>(rel, ent). valid_utf8 rel \<and> (case hash ent of None \<Rightarrow> True | Some h \<Rightarrow> valid_utf8 h)) d"

subsection \<open>load_hash_db and save_hash_db\<close>

definition path_exists :: "world \<Rightarrow> string \<Rightarrow> bool" where
  "path_exists w p = (case store w p of None \<Rightarrow> False | Some f \<Rightarrow> hidden f = None)"

text \<open>
  Only \<open>json.JSONDecodeError\<close> is caught. A file that \<open>os.path.exists\<close> does not see is not
  opened.
\<close>

definition load_hash_db :: "world \<Rightarrow> string \<Rightarrow> error + baseline" where
  "load_hash_db w p =
     (if path_exists w p then
        (case store w p of
           None \<Rightarrow> Inr []
         | Some f \<Rightarrow>
             (case read_error f of
                Some m \<Rightarrow> Inl (OSError m)
              | None \<Rightarrow>
                  (case file_content f of
                     Document d \<Rightarrow> Inr d
                   | Malformed \<Rightarrow> Inr []
                   | Unloadable e \<Rightarrow> Inl e)))
      else Inr [])"

text \<open>
  \<open>json.dump(db, f, indent=2, ensure_ascii=False)\<close> on the open file: the exception it
  raises and what the file holds after it, or \<open>None\<close> when the whole document is written.
  What is left after an exception is a proper part of the text from its start, which is
  no JSON document; cut inside a character it is not UTF-8 either.
\<close>

definition dump_failure :: "world \<Rightarrow> string \<Rightarrow> baseline \<Rightarrow> (error \<times> json_content) option" where
  "dump_failure w p d =
     (if \<not> encodable d then Some (UnicodeEncodeError ''surrogates not allowed'', Malformed)
      else
        (case write_fault w p of
           None \<Rightarrow> None
         | Some (m, in_char) \<Rightarrow>
             Some (OSError m,
                   if in_char then Unloadable (UnicodeDecodeError ''unexpected end of data'')
                   else Malformed)))"

text \<open>The file \<open>f\<close> at \<open>p\<close> is open for writing, and empty: \<open>json.dump\<close> writes into it.\<close>

definition write_json :: "string \<Rightarrow> text_file \<Rightarrow> baseline \<Rightarrow> world \<Rightarrow> (error + unit) \<times> world" where
  "write_json p f d w =
     (case dump_failure w p d of
        Some (e, left) \<Rightarrow> (Inl e, w\<lparr>store := (store w)(p \<mapsto> f\<lparr>file_content := left\<rparr>)\<rparr>)
      | None \<Rightarrow> (Inr (), w\<lparr>store := (store w)(p \<mapsto> f\<lparr>file_content := Document d\<rparr>)\<rparr>))"

text \<open>
  \<open>open(path, "w")\<close> makes the file when there is none, keeps its rights otherwise, and
  empties it in both cases, before \<open>json.dump\<close> writes.
\<close>

definition save_hash_db :: "string \<Rightarrow> baseline \<Rightarrow> world \<Rightarrow> (error + unit) \<times> world" where
  "save_hash_db p d w =
     (case store w p of
        None \<Rightarrow>
          (case create_error w p of
             Some m \<Rightarrow> (Inl (OSError m), w)
           | None \<Rightarrow>
               write_json p
                 \<lparr>hidden = None, read_error = None, write_error = None, file_content = Malformed\<rparr>
                 d w)
      | Some f \<Rightarrow>
          (case hidden f of
             Some m \<Rightarrow> (Inl (OSError m), w)
           | None \<Rightarrow>
               (case write_error f of
                  Some m \<Rightarrow> (Inl (OSError m), w)
                | None \<Rightarrow> write_json p f d w)))"

subsection \<open>scan_directory\<close>

text \<open>The loop over the files of the walk; the first failing call leaves the function.\<close>

fun scan_files :: "walked list \<Rightarrow> snapshot \<Rightarrow> error + snapshot" where
  "scan_files [] files = Inr files"
| "scan_files ((rel, full, st) # rest) files =
     (case st of
        Inl m \<Rightarrow> Inl (OSError m)
      | Inr (mt, sz) \<Rightarrow>
          scan_files rest (AList.update rel \<lparr>path = full, mtime_m = mt, size_m = sz\<rparr> files))"

definition scan_directory :: "world \<Rightarrow> string \<Rightarrow> error + snapshot" where
  "scan_directory w dirpath = scan_files (walk w dirpath) []"

subsection \<open>perform_check\<close>

text \<open>
  The local variables of \<open>perform_check\<close> that the loops change. A \<open>for\<close> loop runs its
  body on every element in turn; an exception leaves the loop and the function.
\<close>

record locals =
  db :: baseline
  safe :: nat
  corrupted :: nat
  last_anomaly :: "string option"

fun for_each ::
  "('a \<Rightarrow> locals \<Rightarrow> world \<Rightarrow> (error + locals) \<times> world) \<Rightarrow> 'a list \<Rightarrow> locals \<Rightarrow> world
     \<Rightarrow> (error + locals) \<times> world" where
  "for_each body [] l w = (Inr l, w)"
| "for_each body (x # xs) l w =
     (case body x l w of
        (Inl e, w') \<Rightarrow> (Inl e, w')
      | (Inr l', w') \<Rightarrow> for_each body xs l' w')"

text \<open>
  The body of the first loop (\<open># New file\<close>). The digest is taken outside any \<open>try\<close>, with
  or without \<open>auto_update\<close>.
\<close>

definition new_file ::
  "'h library \<Rightarrow> bool \<Rightarrow> string \<times> file_meta \<Rightarrow> locals \<Rightarrow> world \<Rightarrow> (error + locals) \<times> world" where
  "new_file L auto_update x l w =
     (case x of (rel, meta) \<Rightarrow>
        if rel \<notin> set (map fst (db l)) then
          (let w1 = logger_alert ''detected as unknown.'' (Some rel) w;
               l1 = l\<lparr>last_anomaly := Some (clock w1)\<rparr>
           in case hash_file L w1 (path meta) of
                Inl e \<Rightarrow> (Inl e, w1)
              | Inr current_hash \<Rightarrow>
                  if auto_update then
                    (Inr (l1\<lparr>db := AList.update rel
                             \<lparr>hash = Some current_hash, mtime = mtime_m meta, size_e = size_m meta\<rparr>
                             (db l1)\<rparr>),
                     logger_info ''added to baseline (auto-update).'' (Some rel) w1)
                  else (Inr l1, w1))
        else (Inr l, w))"

text \<open>The body of the second loop (\<open># Deleted file\<close>), run on the list \<open>deleted\<close>.\<close>

definition deleted_file ::
  "bool \<Rightarrow> string \<Rightarrow> locals \<Rightarrow> world \<Rightarrow> (error + locals) \<times> world" where
  "deleted_file auto_update f l w =
     (let w1 = logger_alert ''deleted from monitored folder.'' (Some f) w;
          l1 = l\<lparr>last_anomaly := Some (clock w1)\<rparr>
      in if auto_update then
           (Inr (l1\<lparr>db := AList.delete f (db l1)\<rparr>),
            logger_info ''removed from baseline (auto-update).'' (Some f) w1)
         else (Inr l1, w1))"

text \<open>How an f-string shows \<open>baseline_h\<close>.\<close>

definition py_str :: "string option \<Rightarrow> string" where
  "py_str h = (case h of None \<Rightarrow> ''None'' | Some s \<Rightarrow> s)"

definition alert_subject :: "string \<Rightarrow> string" where
  "alert_subject rel = ''[ALERT] Integrity failed: '' @ rel"

definition alert_body :: "string \<Rightarrow> string option \<Rightarrow> string \<Rightarrow> string" where
  "alert_body rel baseline_h cur_h =
     ''File '' @ rel @ '' changed.'' @ [CHR 0x0A] @ ''Baseline hash: '' @ py_str baseline_h
       @ [CHR 0x0A] @ ''Current hash: '' @ cur_h"

definition recipient :: "smtp option \<Rightarrow> string option" where
  "recipient smtp_cfg =
     (case smtp_cfg of None \<Rightarrow> Some ''admin@example.com'' | Some cfg \<Rightarrow> to_addr cfg)"

text \<open>The message \<open>f"could not be read: {e}"\<close>.\<close>

definition read_failure :: "error \<Rightarrow> string" where
  "read_failure e = ''could not be read: '' @ str_error e"

text \<open>The body of the third loop (\<open># Modified file\<close>).\<close>

definition modified_file ::
  "'h library \<Rightarrow> smtp option \<Rightarrow> bool \<Rightarrow> string \<times> file_meta \<Rightarrow> locals \<Rightarrow> world
     \<Rightarrow> (error + locals) \<times> world" where
  "modified_file L smtp_cfg auto_update x l w =
     (case x of (rel, meta) \<Rightarrow>
        (case map_of (db l) rel of
           None \<Rightarrow> (Inr l, w)
         | Some ent \<Rightarrow>
             (case hash_file L w (path meta) of
                Inl e \<Rightarrow>
                  (let w1 = logger_alert (read_failure e) (Some rel) w
                   in (Inr (l\<lparr>last_anomaly := Some (clock w1), corrupted := corrupted l + 1\<rparr>), w1))
              | Inr cur_h \<Rightarrow>
                  (let baseline_h = hash ent
                   in if Some cur_h = baseline_h then
                        (Inr (l\<lparr>safe := safe l + 1\<rparr>), logger_info ''verified OK.'' (Some rel) w)
                      else
                        (let w1 = logger_warning ''integrity failed!'' (Some rel) w;
                             l1 = l\<lparr>last_anomaly := Some (clock w1), corrupted := corrupted l + 1\<rparr>;
                             w2 = snd (send_email smtp_cfg (alert_subject rel)
                                         (alert_body rel baseline_h cur_h) (recipient smtp_cfg) w1)
                         in if auto_update then
                              (Inr (l1\<lparr>db := AList.update rel
                                       (ent\<lparr>hash := Some cur_h, mtime := mtime_m meta,
                                            size_e := size_m meta\<rparr>) (db l1)\<rparr>),
                               logger_info ''baseline updated after modification (auto-update).''
                                 (Some rel) w2)
                            else (Inr l1, w2))))))"

definition perform_check ::
  "'h library \<Rightarrow> string \<Rightarrow> string \<Rightarrow> smtp option \<Rightarrow> bool \<Rightarrow> world
     \<Rightarrow> (error + nat \<times> nat \<times> string option) \<times> world" where
  "perform_check L dirpath hash_db_path smtp_cfg auto_update w =
     (if \<not> isdir w dirpath then
        (Inl (FileNotFoundError (''Directory '' @ dirpath @ '' not found'')), w)
      else
        (case scan_directory w dirpath of
           Inl e \<Rightarrow> (Inl e, w)
         | Inr current \<Rightarrow>
        (case load_hash_db w hash_db_path of
              Inl e \<Rightarrow> (Inl e, w)
            | Inr d \<Rightarrow>
                (case for_each (new_file L auto_update) current
                        \<lparr>db = d, safe = 0, corrupted = 0, last_anomaly = None\<rparr> w of
                   (Inl e, w1) \<Rightarrow> (Inl e, w1)
                 | (Inr l1, w1) \<Rightarrow>
                     (let deleted = filter (\<lambda>f. f \<notin> set (map fst current)) (map fst (db l1))
                      in case for_each (deleted_file auto_update) deleted l1 w1 of
                           (Inl e, w2) \<Rightarrow> (Inl e, w2)
                         | (Inr l2, w2) \<Rightarrow>
                             (case for_each (modified_file L smtp_cfg auto_update) current l2 w2 of
                                (Inl e, w3) \<Rightarrow> (Inl e, w3)
                              | (Inr l3, w3) \<Rightarrow>
                                  (case save_hash_db hash_db_path (db l3) w3 of
                                     (Inl e, w4) \<Rightarrow> (Inl e, w4)
                                   | (Inr u, w4) \<Rightarrow>
                                       (Inr (safe l3, corrupted l3, last_anomaly l3), w4))))))))"

subsection \<open>main\<close>

text \<open>The parsed command line; \<open>--log\<close> is left out, the model has one log.\<close>

record args =
  args_dir :: string
  args_hash_db :: string
  args_watch :: bool
  args_interval :: int
  args_auto_update :: bool
  args_smtp_config :: "string option"

function str_nat :: "nat \<Rightarrow> string" where
  "str_nat n = (if n < 10 then [char_of (48 + n)] else str_nat (n div 10) @ [char_of (48 + n mod 10)])"
  by pat_completeness auto
termination
  by (relation "measure (\<lambda>n. n)") auto

declare str_nat.simps [simp del]

definition str_int :: "int \<Rightarrow> string" where
  "str_int i = (if i < 0 then CHR ''-'' # str_nat (nat (- i)) else str_nat (nat i))"

text \<open>
  The first run: with no baseline file, one is made from the files found. A file that
  cannot be hashed is logged and skipped.
\<close>

definition add_to_baseline ::
  "'h library \<Rightarrow> string \<times> file_meta \<Rightarrow> baseline \<times> world \<Rightarrow> baseline \<times> world" where
  "add_to_baseline L x s =
     (case x of (rel, meta) \<Rightarrow> case s of (d, w) \<Rightarrow>
        (case hash_file L w (path meta) of
           Inr h \<Rightarrow>
             (AList.update rel \<lparr>hash = Some h, mtime = mtime_m meta, size_e = size_m meta\<rparr> d,
              logger_info ''added to baseline.'' (Some rel) w)
         | Inl e \<Rightarrow>
             (d, logger_warning (''failed to hash during baseline creation: '' @ str_error e)
                   (Some rel) w)))"

definition create_baseline :: "'h library \<Rightarrow> args \<Rightarrow> world \<Rightarrow> (error + unit) \<times> world" where
  "create_baseline L a w =
     (if \<not> path_exists w (args_hash_db a) then
        (let w1 = logger_info ''Baseline DB not found. Creating new baseline from current files.''
                    None w
         in case scan_directory w1 (args_dir a) of
              Inl e \<Rightarrow> (Inl e, w1)
            | Inr files \<Rightarrow>
                (let (d, w2) = fold (add_to_baseline L) files ([], w1)
                 in save_hash_db (args_hash_db a) d w2))
      else (Inr (), w))"

definition load_smtp_config :: "args \<Rightarrow> world \<Rightarrow> (error + smtp option) \<times> world" where
  "load_smtp_config a w =
     (case args_smtp_config a of
        None \<Rightarrow> (Inr None, w)
      | Some p \<Rightarrow>
          if p = [] then (Inr None, w)
          else
            (case configs w p of
               Some r \<Rightarrow> (r, w)
             | None \<Rightarrow>
                 (Inr None,
                  logger_warning ''SMTP config file not found, email alerts will be simulated.''
                    None w)))"

text \<open>
  \<open>time.sleep\<close> raises \<open>ValueError\<close> on a negative interval and \<open>OverflowError\<close> on one
  that is too long.
\<close>

definition time_sleep :: "world \<Rightarrow> int \<Rightarrow> error + unit" where
  "time_sleep w secs =
     (if secs < 0 then Inl (ValueError ''sleep length must be non-negative'')
      else if sleep_limit w < secs then
        Inl (OverflowError ''timestamp too large to convert to C _PyTime_t'')
      else Inr ())"

text \<open>
  The watch loop, \<open>while True\<close>, ends only by the user's interrupt or by an exception of
  \<open>time.sleep\<close>, which is outside the \<open>try\<close> around the check. The first argument is the
  number of rounds (a check and a sleep) that pass before the interrupt.
\<close>

fun watcher ::
  "nat \<Rightarrow> 'h library \<Rightarrow> args \<Rightarrow> smtp option \<Rightarrow> world \<Rightarrow> (error + unit) \<times> world" where
  "watcher 0 L a smtp_cfg w = (Inr (), w)"
| "watcher (Suc n) L a smtp_cfg w =
     (let (r, w1) = perform_check L (args_dir a) (args_hash_db a) smtp_cfg (args_auto_update a) w;
          w2 = (case r of
                  Inl e \<Rightarrow> logger_alert (''Watcher error: '' @ str_error e) None w1
                | Inr res \<Rightarrow> w1)
      in case time_sleep w2 (args_interval a) of
           Inl e \<Rightarrow> (Inl e, w2)
         | Inr u \<Rightarrow> watcher n L a smtp_cfg w2)"

text \<open>
  \<open>main\<close> gives the exit status of the process: 0 at the end of \<open>main\<close>, 1 for
  \<open>sys.exit(1)\<close> and for an exception that nothing catches.
\<close>

definition main :: "nat \<Rightarrow> 'h library \<Rightarrow> args \<Rightarrow> world \<Rightarrow> nat \<times> world" where
  "main rounds L a w =
     (case create_baseline L a w of
        (Inl e, w1) \<Rightarrow> (1, w1)
      | (Inr u, w1) \<Rightarrow>
          (case load_smtp_config a w1 of
             (Inl e, w2) \<Rightarrow> (1, w2)
           | (Inr smtp_cfg, w2) \<Rightarrow>
               if \<not> args_watch a then
                 (case perform_check L (args_dir a) (args_hash_db a) smtp_cfg
                         (args_auto_update a) w2 of
                    (Inr res, w3) \<Rightarrow> (0, w3)
                  | (Inl e, w3) \<Rightarrow> (1, w3))
               else
                 (let w3 = logger_info (''Starting watcher on '' @ args_dir a @ '', interval ''
                                          @ str_int (args_interval a) @ ''s.'') None w2
                  in case watcher rounds L a smtp_cfg w3 of
                       (Inr u', w4) \<Rightarrow>
                         (0, logger_info ''Watcher stopped by user. Exiting.'' None w4)
                     | (Inl e, w4) \<Rightarrow> (1, w4))))"

subsection \<open>Reading a run\<close>

text \<open>
  \<open>same_files\<close>: two worlds differ at most in the log and the outbox.
\<close>

definition same_files :: "world \<Rightarrow> world \<Rightarrow> bool" where
  "same_files w w' \<longleftrightarrow>
     isdir w' = isdir w \<and> walk w' = walk w \<and> content w' = content w \<and> store w' = store w \<and>
     create_error w' = create_error w \<and> write_fault w' = write_fault w \<and>
     configs w' = configs w \<and> smtp_up w' = smtp_up w \<and> sleep_limit w' = sleep_limit w \<and>
     clock w' = clock w"

text \<open>
  The classification events of the specification are lines of the log: \<open>NewFile\<close> is the
  alert of the first loop, \<open>DeletedFile\<close> the alert of the second, and \<open>Unreadable\<close>,
  \<open>Verified\<close> and \<open>Corrupted\<close> are the three lines of the third. The other lines
  (what \<open>auto_update\<close> did, the watcher's messages) classify nothing.
\<close>

datatype outcome = NewFile | DeletedFile | Verified | Corrupted | Unreadable

definition outcome_of :: "event \<Rightarrow> outcome option" where
  "outcome_of ev =
     (case ev of (lv, message, fn) \<Rightarrow>
        if lv = ALERT \<and> message = ''detected as unknown.'' then Some NewFile
        else if lv = ALERT \<and> message = ''deleted from monitored folder.'' then Some DeletedFile
        else if lv = ALERT \<and> take 19 message = ''could not be read: '' then Some Unreadable
        else if lv = INFO \<and> message = ''verified OK.'' then Some Verified
        else if lv = WARNING \<and> message = ''integrity failed!'' then Some Corrupted
        else None)"

text \<open>The classifications that a log holds for one path, in the order of the log.\<close>

definition classifications :: "string \<Rightarrow> event list \<Rightarrow> outcome list" where
  "classifications rel evs =
     List.map_filter
       (\<lambda>ev. if snd (snd ev) = file_name (Some rel) then outcome_of ev else None) evs"

text \<open>The paths that a log classifies with one of the given outcomes.\<close>

definition handled_as :: "outcome list \<Rightarrow> event list \<Rightarrow> string list" where
  "handled_as ocs evs =
     List.map_filter
       (\<lambda>ev. case outcome_of ev of
                None \<Rightarrow> None
              | Some oc \<Rightarrow> if oc \<in> set ocs then snd (snd ev) else None) evs"

text \<open>
  The program builds only the list \<open>deleted\<close>; the two other sets of the partition are
  the paths that pass the test of the first loop (\<open>rel not in db\<close>) and of the third
  (\<open>rel in db\<close>). A path is handled by a loop exactly when the loop logs its line for it.
\<close>

definition only_in_snapshot :: "event list \<Rightarrow> string set" where
  "only_in_snapshot evs = set (handled_as [NewFile] evs)"

definition only_in_baseline :: "event list \<Rightarrow> string set" where
  "only_in_baseline evs = set (handled_as [DeletedFile] evs)"

definition in_both :: "event list \<Rightarrow> string set" where
  "in_both evs = set (handled_as [Verified, Corrupted, Unreadable] evs)"

text \<open>
  The classification that the specification gives one path (its steps 2 to 5), from the
  snapshot and the baseline as they are when the check starts: the verdict on the digest
  for a path in both, the new or the deleted file for a path in one of them, nothing for a
  path in neither. It is written from the specification, to be compared with what the code
  logs.
\<close>

definition verdict :: "'h library \<Rightarrow> world \<Rightarrow> file_meta \<Rightarrow> entry \<Rightarrow> outcome" where
  "verdict L w meta ent =
     (case hash_file L w (path meta) of
        Inl e \<Rightarrow> Unreadable
      | Inr cur_h \<Rightarrow> if Some cur_h = hash ent then Verified else Corrupted)"

definition spec_outcomes :: "'h library \<Rightarrow> world \<Rightarrow> snapshot \<Rightarrow> baseline \<Rightarrow> string \<Rightarrow> outcome list" where
  "spec_outcomes L w cur d rel =
     (case map_of cur rel of
        None \<Rightarrow> (case map_of d rel of None \<Rightarrow> [] | Some ent \<Rightarrow> [DeletedFile])
      | Some meta \<Rightarrow> (case map_of d rel of None \<Rightarrow> [NewFile] | Some ent \<Rightarrow> [verdict L w meta ent]))"

text \<open>The lines that go with an increment of \<open>corrupted\<close>, and the mails about one path.\<close>

definition bad_events :: "event list \<Rightarrow> nat" where
  "bad_events evs =
     length (filter (\<lambda>ev. outcome_of ev = Some Corrupted \<or> outcome_of ev = Some Unreadable) evs)"

definition mails_about ::
  "string \<Rightarrow> (string \<times> string \<times> string option) list \<Rightarrow> (string \<times> string \<times> string option) list" where
  "mails_about rel ms = filter (\<lambda>m. fst m = alert_subject rel) ms"

subsection \<open>Example worlds\<close>

text \<open>A small hasher for the examples: the digest of a file depends on its length only.\<close>

definition base1 :: baseline where
  "base1 = [(''report.csv'', \<lparr>hash = Some ''d1'', mtime = 1, size_e = 5\<rparr>)]"

definition toy_library :: "nat library" where
  "toy_library =
     \<lparr>new_h = 0, update_h = (\<lambda>h c. h + length c),
      hexdigest = (\<lambda>h. if h = 1 then ''d1'' else ''d2'')\<rparr>"

text \<open>Nothing exists.\<close>

definition empty_world :: world where
  "empty_world =
     \<lparr>isdir = (\<lambda>p. False), walk = (\<lambda>p. []), content = (\<lambda>p. Inl ''No such file or directory''),
      store = (\<lambda>p. None), create_error = (\<lambda>p. None), write_fault = (\<lambda>p. None),
      configs = (\<lambda>p. None), smtp_up = False, sleep_limit = 9223372036,
      clock = ''2026-01-01 00:00:00'', security_log = [], outbox = []\<rparr>"

definition plain_file :: "json_content \<Rightarrow> text_file" where
  "plain_file c = \<lparr>hidden = None, read_error = None, write_error = None, file_content = c\<rparr>"

text \<open>The baseline file is there and is not JSON.\<close>

definition malformed_world :: world where
  "malformed_world =
     empty_world\<lparr>store := (\<lambda>p. if p = ''hash_db.json'' then Some (plain_file Malformed) else None)\<rparr>"

text \<open>The baseline file is there and holds ten thousand opening brackets.\<close>

definition nested_world :: world where
  "nested_world =
     empty_world\<lparr>store := (\<lambda>p. if p = ''hash_db.json''
        then Some (plain_file (Unloadable (RecursionError ''maximum recursion depth exceeded'')))
        else None)\<rparr>"

text \<open>The baseline file is there and holds bytes that are not UTF-8.\<close>

definition undecodable_world :: world where
  "undecodable_world =
     empty_world\<lparr>store := (\<lambda>p. if p = ''hash_db.json''
        then Some (plain_file (Unloadable (UnicodeDecodeError ''invalid start byte'')))
        else None)\<rparr>"

text \<open>The baseline file is there and may not be read.\<close>

definition protected_world :: world where
  "protected_world =
     empty_world\<lparr>store := (\<lambda>p. if p = ''hash_db.json''
        then Some \<lparr>hidden = None, read_error = Some ''Permission denied'', write_error = None,
                   file_content = Document base1\<rparr>
        else None)\<rparr>"

text \<open>The baseline file is there, in a directory that may not be searched.\<close>

definition hidden_world :: world where
  "hidden_world =
     empty_world\<lparr>store := (\<lambda>p. if p = ''hash_db.json''
        then Some \<lparr>hidden = Some ''Permission denied'', read_error = Some ''Permission denied'',
                   write_error = Some ''Permission denied'', file_content = Document base1\<rparr>
        else None)\<rparr>"

text \<open>
  The baseline knows \<open>report.csv\<close> with digest \<open>d1\<close>; the file now has two bytes, digest
  \<open>d2\<close>.
\<close>

definition changed_world :: world where
  "changed_world =
     empty_world
       \<lparr>isdir := (\<lambda>p. p = ''secure_files''),
        walk := (\<lambda>p. if p = ''secure_files''
                   then [(''report.csv'', ''secure_files/report.csv'', Inr (2, 2))]
                   else []),
        content := (\<lambda>p. if p = ''secure_files/report.csv'' then Inr [1, 2]
                      else Inl ''No such file or directory''),
        store := (\<lambda>p. if p = ''hash_db.json'' then Some (plain_file (Document base1))
                    else None)\<rparr>"

text \<open>As before, on a disk that fails while the baseline file is written.\<close>

definition failing_disk_world :: world where
  "failing_disk_world =
     changed_world
       \<lparr>write_fault := (\<lambda>p. if p = ''hash_db.json'' then Some (''Input/output error'', False)
                          else None)\<rparr>"

text \<open>As \<open>changed_world\<close>, and a second file \<open>new.bin\<close> that the baseline does not know and that may not be read.\<close>

definition locked_world :: world where
  "locked_world =
     changed_world
       \<lparr>walk := (\<lambda>p. if p = ''secure_files''
                   then [(''report.csv'', ''secure_files/report.csv'', Inr (2, 2)),
                         (''new.bin'', ''secure_files/new.bin'', Inr (3, 9))]
                   else []),
        content := (\<lambda>p. if p = ''secure_files/report.csv'' then Inr [1, 2]
                      else if p = ''secure_files/new.bin'' then Inl ''Permission denied''
                      else Inl ''No such file or directory'')\<rparr>"

text \<open>An empty baseline and one file \<open>a.txt\<close> of one byte.\<close>

definition fresh_world :: world where
  "fresh_world =
     empty_world
       \<lparr>isdir := (\<lambda>p. p = ''secure_files''),
        walk := (\<lambda>p. if p = ''secure_files''
                   then [(''a.txt'', ''secure_files/a.txt'', Inr (1, 1))]
                   else []),
        content := (\<lambda>p. if p = ''secure_files/a.txt'' then Inr [7]
                      else Inl ''No such file or directory''),
        store := (\<lambda>p. if p = ''hash_db.json'' then Some (plain_file (Document [])) else None)\<rparr>"

text \<open>
  A file whose name is the byte \<open>0xFF\<close> and \<open>.txt\<close>, which is not UTF-8, and the baseline
  with the entry that the program makes for it.
\<close>

definition odd_name :: string where
  "odd_name = CHR 0xFF # ''.txt''"

definition odd_base :: baseline where
  "odd_base = [(odd_name, \<lparr>hash = Some ''d1'', mtime = 1, size_e = 1\<rparr>)]"


section \<open>Properties\<close>

subsection \<open>Loops and frames\<close>

lemma same_files_refl [simp]: "same_files w w"
  by (simp add: same_files_def)

lemma same_files_trans: "same_files w w1 \<Longrightarrow> same_files w1 w2 \<Longrightarrow> same_files w w2"
  by (simp add: same_files_def)

lemma same_files_logger [simp]:
  "same_files w (logger_info m fn w')  \<longleftrightarrow> same_files w w'"
  "same_files w (logger_warning m fn w') \<longleftrightarrow> same_files w w'"
  "same_files w (logger_alert m fn w') \<longleftrightarrow> same_files w w'"
  by (simp_all add: same_files_def logger_info_def logger_warning_def logger_alert_def)

lemma same_files_send_email [simp]:
  "same_files w (snd (send_email cfg s b t w')) \<longleftrightarrow> same_files w w'"
  by (simp add: same_files_def send_email_def Let_def split: option.splits)

lemma hash_file_same_files: "same_files w w' \<Longrightarrow> hash_file L w' p = hash_file L w p"
  by (simp add: same_files_def hash_file_def)

lemma load_same_files: "same_files w w' \<Longrightarrow> load_hash_db w' p = load_hash_db w p"
  by (simp add: same_files_def load_hash_db_def path_exists_def)

lemma dump_failure_same_files: "same_files w w' \<Longrightarrow> dump_failure w' p d = dump_failure w p d"
  by (simp add: same_files_def dump_failure_def)

lemma for_each_invariant:
  assumes ok: "\<And>x l w l' w'. x \<in> set xs \<Longrightarrow> I l w \<Longrightarrow> body x l w = (Inr l', w') \<Longrightarrow> I l' w'"
    and err: "\<And>x l w e w'. x \<in> set xs \<Longrightarrow> I l w \<Longrightarrow> body x l w = (Inl e, w') \<Longrightarrow> E w'"
    and init: "I l w"
  shows "(for_each body xs l w = (Inr l', w') \<longrightarrow> I l' w') \<and>
         (for_each body xs l w = (Inl e, w') \<longrightarrow> E w')"
  using assms
proof (induction xs arbitrary: l w)
  case Nil
  then show ?case by auto
next
  case (Cons x xs)
  obtain r1 w1 where b: "body x l w = (r1, w1)" by (cases "body x l w")
  show ?case
  proof (cases r1)
    case (Inl e1)
    with b have "for_each body (x # xs) l w = (Inl e1, w1)" by simp
    moreover from Cons.prems(2) [of x l w e1 w1] Cons.prems(3) b Inl have "E w1" by simp
    ultimately show ?thesis by auto
  next
    case (Inr l1)
    with b have run: "for_each body (x # xs) l w = for_each body xs l1 w1" by simp
    from Cons.prems(1) [of x l w l1 w1] Cons.prems(3) b Inr have i1: "I l1 w1" by simp
    have "(for_each body xs l1 w1 = (Inr l', w') \<longrightarrow> I l' w') \<and>
          (for_each body xs l1 w1 = (Inl e, w') \<longrightarrow> E w')"
    proof (rule Cons.IH)
      show "\<And>x l w l' w'. x \<in> set xs \<Longrightarrow> I l w \<Longrightarrow> body x l w = (Inr l', w') \<Longrightarrow> I l' w'"
        using Cons.prems(1) by (meson list.set_intros(2))
      show "\<And>x l w e w'. x \<in> set xs \<Longrightarrow> I l w \<Longrightarrow> body x l w = (Inl e, w') \<Longrightarrow> E w'"
        using Cons.prems(2) by (meson list.set_intros(2))
      show "I l1 w1" by (rule i1)
    qed
    with run show ?thesis by simp
  qed
qed

lemma new_file_frame:
  assumes "new_file L au x l w = (r, w')"
  shows "same_files w w'"
  using assms
  by (auto simp: new_file_def Let_def split: prod.splits if_splits sum.splits)

lemma new_file_keeps_db:
  assumes "new_file L False x l w = (Inr l', w')"
  shows "db l' = db l"
  using assms
  by (auto simp: new_file_def Let_def split: prod.splits if_splits sum.splits)

lemma deleted_file_frame:
  assumes "deleted_file au f l w = (r, w')"
  shows "same_files w w'"
  using assms
  by (auto simp: deleted_file_def Let_def split: if_splits)

lemma deleted_file_keeps_db:
  assumes "deleted_file False f l w = (Inr l', w')"
  shows "db l' = db l"
  using assms
  by (auto simp: deleted_file_def Let_def split: if_splits)

lemma modified_file_frame:
  assumes "modified_file L cfg au x l w = (r, w')"
  shows "same_files w w'"
  using assms
  by (auto simp: modified_file_def Let_def split: prod.splits option.splits if_splits sum.splits)

lemma modified_file_keeps_db:
  assumes "modified_file L cfg False x l w = (Inr l', w')"
  shows "db l' = db l"
  using assms
  by (auto simp: modified_file_def Let_def split: prod.splits option.splits if_splits sum.splits)

lemma modified_file_returns:
  "\<exists>l'. fst (modified_file L cfg au x l w) = Inr l'"
  by (auto simp: modified_file_def Let_def split: prod.splits option.splits if_splits sum.splits)


lemma first_loop_no_update:
  "(for_each (new_file L False) xs l w = (Inr l', w') \<longrightarrow> db l' = db l \<and> same_files w w') \<and>
   (for_each (new_file L False) xs l w = (Inl e, w') \<longrightarrow> same_files w w')"
proof (rule for_each_invariant [where I = "\<lambda>l1 w1. db l1 = db l \<and> same_files w w1"
      and E = "\<lambda>w1. same_files w w1"])
  show "db l = db l \<and> same_files w w" by simp
next
  fix x l0 w0 l1 w1
  assume "db l0 = db l \<and> same_files w w0" and "new_file L False x l0 w0 = (Inr l1, w1)"
  then show "db l1 = db l \<and> same_files w w1"
    using new_file_keeps_db [of L x l0 w0 l1 w1] new_file_frame [of L False x l0 w0 "Inr l1" w1]
    by (auto intro: same_files_trans)
next
  fix x l0 w0 e1 w1
  assume "db l0 = db l \<and> same_files w w0" and "new_file L False x l0 w0 = (Inl e1, w1)"
  then show "same_files w w1"
    using new_file_frame [of L False x l0 w0 "Inl e1" w1] by (auto intro: same_files_trans)
qed

lemma second_loop_no_update:
  "(for_each (deleted_file False) xs l w = (Inr l', w') \<longrightarrow> db l' = db l \<and> same_files w w') \<and>
   (for_each (deleted_file False) xs l w = (Inl e, w') \<longrightarrow> same_files w w')"
proof (rule for_each_invariant [where I = "\<lambda>l1 w1. db l1 = db l \<and> same_files w w1"
      and E = "\<lambda>w1. same_files w w1"])
  show "db l = db l \<and> same_files w w" by simp
next
  fix x l0 w0 l1 w1
  assume "db l0 = db l \<and> same_files w w0" and "deleted_file False x l0 w0 = (Inr l1, w1)"
  then show "db l1 = db l \<and> same_files w w1"
    using deleted_file_keeps_db [of x l0 w0 l1 w1] deleted_file_frame [of False x l0 w0 "Inr l1" w1]
    by (auto intro: same_files_trans)
next
  fix x l0 w0 e1 w1
  assume "db l0 = db l \<and> same_files w w0" and "deleted_file False x l0 w0 = (Inl e1, w1)"
  then show "same_files w w1"
    using deleted_file_frame [of False x l0 w0 "Inl e1" w1] by (auto intro: same_files_trans)
qed

lemma third_loop_no_update:
  "(for_each (modified_file L cfg False) xs l w = (Inr l', w') \<longrightarrow> db l' = db l \<and> same_files w w') \<and>
   (for_each (modified_file L cfg False) xs l w = (Inl e, w') \<longrightarrow> same_files w w')"
proof (rule for_each_invariant [where I = "\<lambda>l1 w1. db l1 = db l \<and> same_files w w1"
      and E = "\<lambda>w1. same_files w w1"])
  show "db l = db l \<and> same_files w w" by simp
next
  fix x l0 w0 l1 w1
  assume "db l0 = db l \<and> same_files w w0" and "modified_file L cfg False x l0 w0 = (Inr l1, w1)"
  then show "db l1 = db l \<and> same_files w w1"
    using modified_file_keeps_db [of L cfg x l0 w0 l1 w1]
      modified_file_frame [of L cfg False x l0 w0 "Inr l1" w1]
    by (auto intro: same_files_trans)
next
  fix x l0 w0 e1 w1
  assume "db l0 = db l \<and> same_files w w0" and "modified_file L cfg False x l0 w0 = (Inl e1, w1)"
  then show "same_files w w1"
    using modified_file_frame [of L cfg False x l0 w0 "Inl e1" w1] by (auto intro: same_files_trans)
qed

subsection \<open>The stages of a check\<close>

lemma perform_check_no_dir:
  "\<not> isdir w dirpath \<Longrightarrow>
   perform_check L dirpath p cfg au w
     = (Inl (FileNotFoundError (''Directory '' @ dirpath @ '' not found'')), w)"
  by (simp add: perform_check_def)

lemma perform_check_scan_error:
  "isdir w dirpath \<Longrightarrow> scan_directory w dirpath = Inl e \<Longrightarrow>
   perform_check L dirpath p cfg au w = (Inl e, w)"
  by (simp add: perform_check_def)

lemma perform_check_load_error:
  "isdir w dirpath \<Longrightarrow> scan_directory w dirpath = Inr cur \<Longrightarrow> load_hash_db w p = Inl e \<Longrightarrow>
   perform_check L dirpath p cfg au w = (Inl e, w)"
  by (simp add: perform_check_def)

lemma perform_check_first_error:
  assumes "isdir w dirpath" and "scan_directory w dirpath = Inr cur"
    and "load_hash_db w p = Inr d"
    and "for_each (new_file L au) cur
           \<lparr>db = d, safe = 0, corrupted = 0, last_anomaly = None\<rparr> w = (Inl e, w1)"
  shows "perform_check L dirpath p cfg au w = (Inl e, w1)"
  using assms by (simp add: perform_check_def Let_def)

lemma perform_check_second_error:
  assumes "isdir w dirpath" and "scan_directory w dirpath = Inr cur"
    and "load_hash_db w p = Inr d"
    and "for_each (new_file L au) cur
           \<lparr>db = d, safe = 0, corrupted = 0, last_anomaly = None\<rparr> w = (Inr l1, w1)"
    and "for_each (deleted_file au)
           (filter (\<lambda>f. f \<notin> set (map fst cur)) (map fst (db l1))) l1 w1 = (Inl e, w2)"
  shows "perform_check L dirpath p cfg au w = (Inl e, w2)"
  using assms by (simp add: perform_check_def Let_def)

lemma perform_check_third_error:
  assumes "isdir w dirpath" and "scan_directory w dirpath = Inr cur"
    and "load_hash_db w p = Inr d"
    and "for_each (new_file L au) cur
           \<lparr>db = d, safe = 0, corrupted = 0, last_anomaly = None\<rparr> w = (Inr l1, w1)"
    and "for_each (deleted_file au)
           (filter (\<lambda>f. f \<notin> set (map fst cur)) (map fst (db l1))) l1 w1 = (Inr l2, w2)"
    and "for_each (modified_file L cfg au) cur l2 w2 = (Inl e, w3)"
  shows "perform_check L dirpath p cfg au w = (Inl e, w3)"
  using assms by (simp add: perform_check_def Let_def)

lemma perform_check_save:
  assumes "isdir w dirpath" and "scan_directory w dirpath = Inr cur"
    and "load_hash_db w p = Inr d"
    and "for_each (new_file L au) cur
           \<lparr>db = d, safe = 0, corrupted = 0, last_anomaly = None\<rparr> w = (Inr l1, w1)"
    and "for_each (deleted_file au)
           (filter (\<lambda>f. f \<notin> set (map fst cur)) (map fst (db l1))) l1 w1 = (Inr l2, w2)"
    and "for_each (modified_file L cfg au) cur l2 w2 = (Inr l3, w3)"
    and "save_hash_db p (db l3) w3 = (r4, w4)"
  shows "perform_check L dirpath p cfg au w
           = (case r4 of Inl e \<Rightarrow> Inl e | Inr u \<Rightarrow> Inr (safe l3, corrupted l3, last_anomaly l3), w4)"
  using assms by (simp add: perform_check_def Let_def split: sum.splits)

text \<open>Every way a check can go: it stops at one of six places, or it reaches the save.\<close>

lemma perform_check_cases:
  assumes run: "perform_check L dirpath p cfg au w = (r, w')"
  obtains
    (no_dir) "\<not> isdir w dirpath" and "w' = w"
  | (scan_error) e where "isdir w dirpath" and "scan_directory w dirpath = Inl e" and "w' = w"
  | (load_error) cur e where "isdir w dirpath" and "scan_directory w dirpath = Inr cur"
      and "load_hash_db w p = Inl e" and "w' = w"
  | (first_error) cur d e where "isdir w dirpath" and "scan_directory w dirpath = Inr cur"
      and "load_hash_db w p = Inr d"
      and "for_each (new_file L au) cur
             \<lparr>db = d, safe = 0, corrupted = 0, last_anomaly = None\<rparr> w = (Inl e, w')"
      and "r = Inl e"
  | (second_error) cur d l1 w1 e where "isdir w dirpath" and "scan_directory w dirpath = Inr cur"
      and "load_hash_db w p = Inr d"
      and "for_each (new_file L au) cur
             \<lparr>db = d, safe = 0, corrupted = 0, last_anomaly = None\<rparr> w = (Inr l1, w1)"
      and "for_each (deleted_file au)
             (filter (\<lambda>f. f \<notin> set (map fst cur)) (map fst (db l1))) l1 w1 = (Inl e, w')"
  | (third_error) cur d l1 w1 l2 w2 e where "isdir w dirpath"
      and "scan_directory w dirpath = Inr cur" and "load_hash_db w p = Inr d"
      and "for_each (new_file L au) cur
             \<lparr>db = d, safe = 0, corrupted = 0, last_anomaly = None\<rparr> w = (Inr l1, w1)"
      and "for_each (deleted_file au)
             (filter (\<lambda>f. f \<notin> set (map fst cur)) (map fst (db l1))) l1 w1 = (Inr l2, w2)"
      and "for_each (modified_file L cfg au) cur l2 w2 = (Inl e, w')"
  | (saved) cur d l1 w1 l2 w2 l3 w3 r4 where "isdir w dirpath"
      and "scan_directory w dirpath = Inr cur" and "load_hash_db w p = Inr d"
      and "for_each (new_file L au) cur
             \<lparr>db = d, safe = 0, corrupted = 0, last_anomaly = None\<rparr> w = (Inr l1, w1)"
      and "for_each (deleted_file au)
             (filter (\<lambda>f. f \<notin> set (map fst cur)) (map fst (db l1))) l1 w1 = (Inr l2, w2)"
      and "for_each (modified_file L cfg au) cur l2 w2 = (Inr l3, w3)"
      and "save_hash_db p (db l3) w3 = (r4, w')"
      and "r = (case r4 of Inl e \<Rightarrow> Inl e | Inr u \<Rightarrow> Inr (safe l3, corrupted l3, last_anomaly l3))"
proof (cases "isdir w dirpath")
  case False
  from perform_check_no_dir [OF False, of L p cfg au] run have "w' = w" by simp
  with False show ?thesis by (rule no_dir)
next
  case dir: True
  show ?thesis
  proof (cases "scan_directory w dirpath")
    case (Inl e)
    from perform_check_scan_error [OF dir Inl, of L p cfg au] run have "w' = w" by simp
    with dir Inl show ?thesis by (rule scan_error)
  next
    case sc: (Inr cur)
    show ?thesis
    proof (cases "load_hash_db w p")
      case (Inl e)
      from perform_check_load_error [OF dir sc Inl, of L cfg au] run have "w' = w" by simp
      with dir sc Inl show ?thesis by (rule load_error)
    next
      case ld: (Inr d)
      let ?l0 = "\<lparr>db = d, safe = 0, corrupted = 0, last_anomaly = None\<rparr>"
      obtain r1 w1 where one: "for_each (new_file L au) cur ?l0 w = (r1, w1)"
        by (cases "for_each (new_file L au) cur ?l0 w")
      show ?thesis
      proof (cases r1)
        case (Inl e)
        with one have o: "for_each (new_file L au) cur ?l0 w = (Inl e, w1)" by simp
        from perform_check_first_error [OF dir sc ld o, of cfg] run
        have "r = Inl e" and "w1 = w'" by simp_all
        with o show ?thesis using dir sc ld by (auto intro: first_error)
      next
        case (Inr l1)
        with one have o: "for_each (new_file L au) cur ?l0 w = (Inr l1, w1)" by simp
        let ?del = "filter (\<lambda>f. f \<notin> set (map fst cur)) (map fst (db l1))"
        obtain r2 w2 where two: "for_each (deleted_file au) ?del l1 w1 = (r2, w2)"
          by (cases "for_each (deleted_file au) ?del l1 w1")
        show ?thesis
        proof (cases r2)
          case (Inl e)
          with two have t: "for_each (deleted_file au) ?del l1 w1 = (Inl e, w2)" by simp
          from perform_check_second_error [OF dir sc ld o t, of cfg] run
          have "w2 = w'" by simp
          with t show ?thesis using dir sc ld o by (auto intro: second_error)
        next
          case (Inr l2)
          with two have t: "for_each (deleted_file au) ?del l1 w1 = (Inr l2, w2)" by simp
          obtain r3 w3 where three: "for_each (modified_file L cfg au) cur l2 w2 = (r3, w3)"
            by (cases "for_each (modified_file L cfg au) cur l2 w2")
          show ?thesis
          proof (cases r3)
            case (Inl e)
            with three have h: "for_each (modified_file L cfg au) cur l2 w2 = (Inl e, w3)"
              by simp
            from perform_check_third_error [OF dir sc ld o t h] run
            have "w3 = w'" by simp
            with h show ?thesis using dir sc ld o t by (auto intro: third_error)
          next
            case (Inr l3)
            with three have h: "for_each (modified_file L cfg au) cur l2 w2 = (Inr l3, w3)"
              by simp
            obtain r4 w4 where four: "save_hash_db p (db l3) w3 = (r4, w4)"
              by (cases "save_hash_db p (db l3) w3")
            from perform_check_save [OF dir sc ld o t h four] run
            have "w4 = w'"
              and "r = (case r4 of Inl e \<Rightarrow> Inl e
                        | Inr u \<Rightarrow> Inr (safe l3, corrupted l3, last_anomaly l3))"
              by simp_all
            with four show ?thesis using dir sc ld o t h by (auto intro: saved)
          qed
        qed
      qed
    qed
  qed
qed

subsection \<open>Evaluating the examples\<close>

lemmas run_defs =
  perform_check_def scan_directory_def load_hash_db_def path_exists_def save_hash_db_def
  write_json_def dump_failure_def encodable_def valid_utf8_def cont_def new_file_def
  deleted_file_def modified_file_def hash_file_def read_chunks.simps send_email_def
  logger_info_def logger_warning_def logger_alert_def file_name_def read_failure_def
  alert_subject_def alert_body_def recipient_def py_str_def plain_file_def Let_def

lemmas example_defs =
  toy_library_def base1_def empty_world_def malformed_world_def nested_world_def
  protected_world_def hidden_world_def changed_world_def failing_disk_world_def locked_world_def
  fresh_world_def odd_name_def odd_base_def undecodable_world_def

subsection \<open>The baseline store\<close>

text \<open>
  C6, as the claim states it, fails: in \<open>nested_world\<close> the baseline file exists, is
  opened, and \<open>json.load\<close> fails on its text with \<open>RecursionError\<close>, which is no
  \<open>JSONDecodeError\<close>: \<open>load_hash_db\<close> raises it and returns no baseline.
\<close>

theorem load_raises_other_parse_failure:
  "path_exists nested_world ''hash_db.json'' \<and>
   store nested_world ''hash_db.json''
     = Some (plain_file (Unloadable (RecursionError ''maximum recursion depth exceeded''))) \<and>
   load_hash_db nested_world ''hash_db.json''
     = Inl (RecursionError ''maximum recursion depth exceeded'')"
  by (simp add: run_defs example_defs)

text \<open>
  C6, amended. \<open>load_hash_db\<close> gives the empty baseline when there is no baseline file,
  and also when the file is opened and \<open>json.load\<close> raises \<open>JSONDecodeError\<close> on it; in
  both cases it returns normally.
\<close>

theorem load_missing_or_malformed:
  "(store w p = None \<longrightarrow> load_hash_db w p = Inr []) \<and>
   (\<forall>f. store w p = Some f \<and> hidden f = None \<and> read_error f = None \<and> file_content f = Malformed
        \<longrightarrow> load_hash_db w p = Inr [])"
  by (simp add: load_hash_db_def path_exists_def)

theorem load_missing_or_malformed_witness:
  "store empty_world ''hash_db.json'' = None \<and>
   load_hash_db empty_world ''hash_db.json'' = Inr [] \<and>
   store malformed_world ''hash_db.json'' = Some (plain_file Malformed) \<and>
   hidden (plain_file Malformed) = None \<and>
   read_error (plain_file Malformed) = None \<and>
   file_content (plain_file Malformed) = Malformed \<and>
   load_hash_db malformed_world ''hash_db.json'' = Inr []"
proof -
  have a: "store empty_world ''hash_db.json'' = None"
    by (simp add: empty_world_def)
  have b: "store malformed_world ''hash_db.json'' = Some (plain_file Malformed) \<and>
           hidden (plain_file Malformed) = None \<and>
           read_error (plain_file Malformed) = None \<and>
           file_content (plain_file Malformed) = Malformed"
    by (simp add: malformed_world_def empty_world_def plain_file_def)
  from load_missing_or_malformed [of empty_world "''hash_db.json''"] a
  have "load_hash_db empty_world ''hash_db.json'' = Inr []" by simp
  moreover from load_missing_or_malformed [of malformed_world "''hash_db.json''"] b
  have "load_hash_db malformed_world ''hash_db.json'' = Inr []" by blast
  ultimately show ?thesis using a b by simp
qed

text \<open>
  C10, as the claim states it, fails: in \<open>hidden_world\<close> the baseline file exists and may
  not be opened, for want of the right to search its directory. \<open>os.path.exists\<close>
  answers false, the file is not opened, and the permission error becomes the empty
  baseline.
\<close>

theorem load_hidden_file_gives_empty:
  "store hidden_world ''hash_db.json''
     = Some \<lparr>hidden = Some ''Permission denied'', read_error = Some ''Permission denied'',
             write_error = Some ''Permission denied'', file_content = Document base1\<rparr> \<and>
   \<not> path_exists hidden_world ''hash_db.json'' \<and>
   load_hash_db hidden_world ''hash_db.json'' = Inr []"
  by (simp add: run_defs example_defs)

text \<open>
  C10, amended. When \<open>os.path.exists\<close> finds the baseline file and the file cannot be
  opened, or its bytes cannot be read as UTF-8 text, \<open>load_hash_db\<close> raises that error,
  and it does not return the empty baseline.
\<close>

theorem load_unreadable_propagates:
  assumes "store w p = Some f" and "hidden f = None"
  shows "(\<forall>m. read_error f = Some m \<longrightarrow> load_hash_db w p = Inl (OSError m)) \<and>
         (\<forall>m. read_error f = None \<and> file_content f = Unloadable (UnicodeDecodeError m)
              \<longrightarrow> load_hash_db w p = Inl (UnicodeDecodeError m))"
  using assms by (simp add: load_hash_db_def path_exists_def)

theorem load_unreadable_propagates_witness:
  "store protected_world ''hash_db.json''
     = Some \<lparr>hidden = None, read_error = Some ''Permission denied'', write_error = None,
             file_content = Document base1\<rparr> \<and>
   load_hash_db protected_world ''hash_db.json'' = Inl (OSError ''Permission denied'') \<and>
   store undecodable_world ''hash_db.json''
     = Some (plain_file (Unloadable (UnicodeDecodeError ''invalid start byte''))) \<and>
   load_hash_db undecodable_world ''hash_db.json''
     = Inl (UnicodeDecodeError ''invalid start byte'')"
proof -
  have a: "store protected_world ''hash_db.json''
     = Some \<lparr>hidden = None, read_error = Some ''Permission denied'', write_error = None,
             file_content = Document base1\<rparr>"
    by (simp add: protected_world_def empty_world_def)
  have b: "store undecodable_world ''hash_db.json''
     = Some (plain_file (Unloadable (UnicodeDecodeError ''invalid start byte'')))"
    by (simp add: undecodable_world_def empty_world_def)
  from load_unreadable_propagates [OF a]
  have "load_hash_db protected_world ''hash_db.json'' = Inl (OSError ''Permission denied'')"
    by simp
  moreover from load_unreadable_propagates [OF b]
  have "load_hash_db undecodable_world ''hash_db.json''
          = Inl (UnicodeDecodeError ''invalid start byte'')"
    by (simp add: plain_file_def)
  ultimately show ?thesis using a b by simp
qed

text \<open>
  A save that returns is read back: the file then holds the document of the baseline.
\<close>

lemma save_then_load:
  assumes "save_hash_db p B w = (Inr (), w')"
    and "\<forall>f. store w p = Some f \<longrightarrow> read_error f = None"
  shows "load_hash_db w' p = Inr B"
  using assms
  by (auto simp: save_hash_db_def write_json_def load_hash_db_def path_exists_def
      split: option.splits prod.splits)

text \<open>
  C7. \<open>odd_base\<close> is the baseline that the program makes for a file whose name is not
  UTF-8. \<open>save_hash_db\<close> makes the baseline file, empty, and then raises
  \<open>UnicodeEncodeError\<close>, since \<open>ensure_ascii=False\<close> hands the name as it is to the UTF-8
  encoder of the file; \<open>load_hash_db\<close> then reads the empty baseline from that path, not
  \<open>odd_base\<close>.
\<close>

theorem save_odd_name_loses_baseline:
  "\<not> valid_utf8 odd_name \<and> odd_base \<noteq> [] \<and>
   fst (save_hash_db ''hash_db.json'' odd_base empty_world)
     = Inl (UnicodeEncodeError ''surrogates not allowed'') \<and>
   store (snd (save_hash_db ''hash_db.json'' odd_base empty_world)) ''hash_db.json''
     = Some (plain_file Malformed) \<and>
   load_hash_db (snd (save_hash_db ''hash_db.json'' odd_base empty_world)) ''hash_db.json''
     = Inr []"
  by (simp add: run_defs example_defs)

subsection \<open>The hasher\<close>

text \<open>
  C8. The digest is a function of the bytes of the file: two calls of \<open>hash_file\<close> that
  find the same bytes, in any two worlds, return the same digest. \<open>hash_file\<close> returns a
  value and no world: it has no effect.
\<close>

theorem hash_file_deterministic:
  assumes "content w p = Inr bs" and "content w' p = Inr bs"
  shows "hash_file L w p = hash_file L w' p \<and>
         hash_file L w p = Inr (hexdigest L (read_chunks L (new_h L) bs))"
  using assms by (simp add: hash_file_def)

theorem hash_file_deterministic_witness:
  "content changed_world ''secure_files/report.csv'' = Inr [1, 2] \<and>
   content locked_world ''secure_files/report.csv'' = Inr [1, 2] \<and>
   hash_file toy_library changed_world ''secure_files/report.csv''
     = hash_file toy_library locked_world ''secure_files/report.csv''"
proof -
  have a: "content changed_world ''secure_files/report.csv'' = Inr [1, 2]"
    by (simp add: changed_world_def empty_world_def)
  have b: "content locked_world ''secure_files/report.csv'' = Inr [1, 2]"
    by (simp add: locked_world_def changed_world_def empty_world_def)
  from hash_file_deterministic [OF a b, of toy_library] a b show ?thesis by simp
qed

subsection \<open>A check without auto-update\<close>

lemma save_what_was_loaded:
  assumes "load_hash_db w p = Inr d" and "dump_failure w p d = None"
    and "same_files w w3" and "save_hash_db p d w3 = (r, w4)"
  shows "load_hash_db w4 p = Inr d"
proof -
  from assms(2,3) have "dump_failure w3 p d = None" by (simp add: dump_failure_same_files)
  moreover from assms(3) have "store w3 = store w" by (simp add: same_files_def)
  ultimately show ?thesis using assms(1,4)
    by (auto simp: save_hash_db_def write_json_def load_hash_db_def path_exists_def
        split: option.splits if_splits)
qed

text \<open>
  C3, as the claim states it, fails: \<open>save_hash_db\<close> empties the baseline file before
  \<open>json.dump\<close> writes. In \<open>failing_disk_world\<close>, without \<open>auto_update\<close>, the write fails
  with an error of the disk, the check raises, and the entry of \<open>report.csv\<close> that was persisted before
  the check is lost: the next load gives the empty baseline.
\<close>

theorem failed_write_loses_baseline:
  "load_hash_db failing_disk_world ''hash_db.json'' = Inr base1 \<and>
   fst (perform_check toy_library ''secure_files'' ''hash_db.json'' None False failing_disk_world)
     = Inl (OSError ''Input/output error'') \<and>
   load_hash_db
     (snd (perform_check toy_library ''secure_files'' ''hash_db.json'' None False failing_disk_world))
     ''hash_db.json'' = Inr [] \<and>
   base1 \<noteq> []"
  by (simp add: run_defs example_defs)

text \<open>
  C3, amended. With \<open>auto_update\<close> false, and when \<open>json.dump\<close> does not fail on the
  baseline that was loaded while it writes it back, the baseline that \<open>load_hash_db\<close> reads
  after the check is the one it read before, whether the check returns or raises.
\<close>

theorem no_auto_update_keeps_baseline:
  assumes run: "perform_check L dirpath p cfg False w = (r, w')"
    and sound: "\<forall>d. load_hash_db w p = Inr d \<longrightarrow> dump_failure w p d = None"
  shows "load_hash_db w' p = load_hash_db w p"
  using run
proof (cases rule: perform_check_cases)
  case no_dir
  then show ?thesis by simp
next
  case (scan_error e)
  then show ?thesis by simp
next
  case (load_error cur e)
  then show ?thesis by simp
next
  case (first_error cur d e)
  from first_error(4) first_loop_no_update [of L cur _ w _ w' e]
  have "same_files w w'" by simp
  then show ?thesis by (rule load_same_files)
next
  case (second_error cur d l1 w1 e)
  from second_error(4) first_loop_no_update [of L cur _ w l1 w1]
  have "same_files w w1" by simp
  moreover from second_error(5) second_loop_no_update [of _ l1 w1 _ w' e]
  have "same_files w1 w'" by simp
  ultimately have "same_files w w'" by (rule same_files_trans)
  then show ?thesis by (rule load_same_files)
next
  case (third_error cur d l1 w1 l2 w2 e)
  from third_error(4) first_loop_no_update [of L cur _ w l1 w1]
  have "same_files w w1" by simp
  moreover from third_error(5) second_loop_no_update [of _ l1 w1 l2 w2]
  have "same_files w1 w2" by simp
  moreover from third_error(6) third_loop_no_update [of L cfg cur l2 w2 _ w' e]
  have "same_files w2 w'" by simp
  ultimately have "same_files w w'" by (blast intro: same_files_trans)
  then show ?thesis by (rule load_same_files)
next
  case (saved cur d l1 w1 l2 w2 l3 w3 r4)
  from saved(4) first_loop_no_update [of L cur _ w l1 w1]
  have k1: "db l1 = d" "same_files w w1" by simp_all
  from saved(5) second_loop_no_update [of _ l1 w1 l2 w2] k1
  have k2: "db l2 = d" "same_files w w2" by (auto intro: same_files_trans)
  from saved(6) third_loop_no_update [of L cfg cur l2 w2 l3 w3] k2
  have k3: "db l3 = d" "same_files w w3" by (auto intro: same_files_trans)
  from sound saved(3) have "dump_failure w p d = None" by simp
  from save_what_was_loaded [OF saved(3) this k3(2)] saved(7) k3(1)
  have "load_hash_db w' p = Inr d" by simp
  with saved(3) show ?thesis by simp
qed

theorem no_auto_update_keeps_baseline_witness:
  "load_hash_db changed_world ''hash_db.json'' = Inr base1 \<and>
   dump_failure changed_world ''hash_db.json'' base1 = None \<and>
   load_hash_db
     (snd (perform_check toy_library ''secure_files'' ''hash_db.json'' None False changed_world))
     ''hash_db.json'' = Inr base1"
proof -
  have l: "load_hash_db changed_world ''hash_db.json'' = Inr base1"
    by (simp add: run_defs example_defs)
  have r: "dump_failure changed_world ''hash_db.json'' base1 = None"
    by (simp add: run_defs example_defs)
  from l r have c: "\<forall>d. load_hash_db changed_world ''hash_db.json'' = Inr d
        \<longrightarrow> dump_failure changed_world ''hash_db.json'' d = None"
    by simp
  from no_auto_update_keeps_baseline [OF prod.collapse [symmetric] c] l r
  show ?thesis by simp
qed

subsection \<open>A missing directory\<close>











subsection \<open>A changed file\<close>

lemma classifications_append [simp]:
  "classifications rel (xs @ ys) = classifications rel xs @ classifications rel ys"
  by (simp add: classifications_def List.map_filter_def)

lemma classifications_Nil [simp]: "classifications rel [] = []"
  by (simp add: classifications_def List.map_filter_def)

lemma bad_events_append [simp]: "bad_events (xs @ ys) = bad_events xs + bad_events ys"
  by (simp add: bad_events_def)

lemma mails_about_append [simp]: "mails_about rel (xs @ ys) = mails_about rel xs @ mails_about rel ys"
  by (simp add: mails_about_def)

lemma file_name_Some_eq [simp]: "file_name (Some a) = file_name (Some b) \<longleftrightarrow> a = b"
  by (auto simp: file_name_def)

lemma alert_subject_eq [simp]: "alert_subject a = alert_subject b \<longleftrightarrow> a = b"
  by (simp add: alert_subject_def)

lemma classifications_other:
  "r0 \<noteq> rel \<Longrightarrow>
   classifications rel ((lv, m, file_name (Some r0)) # evs) = classifications rel evs"
  by (simp add: classifications_def List.map_filter_def)

lemma classifications_corrupted:
  "classifications rel ((WARNING, ''integrity failed!'', file_name (Some rel)) # evs)
     = Corrupted # classifications rel evs"
  by (simp add: classifications_def List.map_filter_def outcome_of_def)

lemma classifications_updated:
  "classifications rel
     ((INFO, ''baseline updated after modification (auto-update).'', fn) # evs)
     = classifications rel evs"
  by (simp add: classifications_def List.map_filter_def outcome_of_def)

lemma bad_events_Nil [simp]: "bad_events [] = 0"
  by (simp add: bad_events_def)

lemma bad_events_lines [simp]:
  "bad_events ((ALERT, ''detected as unknown.'', fn) # evs) = bad_events evs"
  "bad_events ((INFO, m, fn) # evs) = bad_events evs"
  "bad_events ((ALERT, ''deleted from monitored folder.'', fn) # evs) = bad_events evs"
  "bad_events ((WARNING, ''integrity failed!'', fn) # evs) = Suc (bad_events evs)"
  "bad_events ((ALERT, read_failure e, fn) # evs) = Suc (bad_events evs)"
  by (simp_all add: bad_events_def outcome_of_def read_failure_def)


lemma new_file_view:
  assumes "map_of (db l) rel = Some ent" and "new_file L au x l w = (r, w')"
  shows "classifications rel (security_log w') = classifications rel (security_log w) \<and>
         outbox w' = outbox w \<and>
         bad_events (security_log w') = bad_events (security_log w) \<and>
         (\<forall>l'. r = Inr l' \<longrightarrow> map_of (db l') rel = Some ent \<and> corrupted l' = corrupted l)"
proof (cases x)
  case (Pair r0 m)
  from assms(1) have k: "rel \<in> set (map fst (db l))"
    by (metis map_of_eq_None_iff option.distinct(1) set_map)
  show ?thesis
  proof (cases "r0 \<in> set (map fst (db l))")
    case True
    with assms Pair show ?thesis by (auto simp: new_file_def)
  next
    case False
    with k have ne: "r0 \<noteq> rel" by auto
    with assms Pair False show ?thesis
      by (auto simp: new_file_def Let_def logger_alert_def logger_info_def
          classifications_other classifications_updated update_conv'
          split: sum.splits if_splits)
  qed
qed

lemma deleted_file_view:
  assumes "f \<noteq> rel" and "deleted_file au f l w = (r, w')"
  shows "classifications rel (security_log w') = classifications rel (security_log w) \<and>
         outbox w' = outbox w \<and>
         bad_events (security_log w') = bad_events (security_log w) \<and>
         (\<exists>l'. r = Inr l' \<and> map_of (db l') rel = map_of (db l) rel \<and> corrupted l' = corrupted l)"
  using assms
  by (auto simp: deleted_file_def Let_def logger_alert_def logger_info_def
      classifications_other delete_conv' split: if_splits)


lemma send_email_effect [simp]:
  "outbox (snd (send_email cfg sb b t w)) = outbox w @ [(sb, b, t)]"
  "security_log (snd (send_email cfg sb b t w)) = security_log w"
  "clock (snd (send_email cfg sb b t w)) = clock w"
  by (simp_all add: send_email_def Let_def split: option.splits)

lemma logger_effect [simp]:
  "security_log (logger_info m fn w) = security_log w @ [(INFO, m, file_name fn)]"
  "security_log (logger_warning m fn w) = security_log w @ [(WARNING, m, file_name fn)]"
  "security_log (logger_alert m fn w) = security_log w @ [(ALERT, m, file_name fn)]"
  "outbox (logger_info m fn w) = outbox w"
  "outbox (logger_warning m fn w) = outbox w"
  "outbox (logger_alert m fn w) = outbox w"
  "clock (logger_info m fn w) = clock w"
  "clock (logger_warning m fn w) = clock w"
  "clock (logger_alert m fn w) = clock w"
  by (simp_all add: logger_info_def logger_warning_def logger_alert_def)

lemma mails_about_other [simp]:
  "r0 \<noteq> rel \<Longrightarrow> mails_about rel ((alert_subject r0, b, t) # ms) = mails_about rel ms"
  by (simp add: mails_about_def)

lemma mails_about_same [simp]:
  "mails_about rel ((alert_subject rel, b, t) # ms) = (alert_subject rel, b, t) # mails_about rel ms"
  by (simp add: mails_about_def)

lemma mails_about_Nil [simp]: "mails_about rel [] = []"
  by (simp add: mails_about_def)

lemma modified_file_other:
  assumes "fst x \<noteq> rel" and "modified_file L cfg au x l w = (r, w')"
  shows "classifications rel (security_log w') = classifications rel (security_log w) \<and>
         mails_about rel (outbox w') = mails_about rel (outbox w) \<and>
         (\<exists>l'. r = Inr l' \<and> map_of (db l') rel = map_of (db l) rel)"
proof (cases x)
  case (Pair r0 m)
  with assms(1) have ne: "r0 \<noteq> rel" by simp
  show ?thesis
  proof (cases "map_of (db l) r0")
    case None
    with assms(2) Pair show ?thesis by (auto simp: modified_file_def)
  next
    case (Some e0)
    show ?thesis
    proof (cases "hash_file L w (path m)")
      case (Inl e)
      with assms(2) Pair Some ne show ?thesis
        by (auto simp: modified_file_def Let_def classifications_other)
    next
      case (Inr cur_h)
      with assms(2) Pair Some ne show ?thesis
        by (auto simp: modified_file_def Let_def classifications_other update_conv'
            split: if_splits)
    qed
  qed
qed

lemma modified_file_tally:
  assumes "modified_file L cfg au x l w = (r, w')"
  shows "\<exists>l'. r = Inr l' \<and>
           bad_events (security_log w') + corrupted l = bad_events (security_log w) + corrupted l'"
proof (cases x)
  case (Pair r0 m)
  show ?thesis
  proof (cases "map_of (db l) r0")
    case None
    with assms Pair show ?thesis by (auto simp: modified_file_def)
  next
    case (Some e0)
    show ?thesis
    proof (cases "hash_file L w (path m)")
      case (Inl e)
      with assms Pair Some show ?thesis
        by (auto simp: modified_file_def Let_def)
    next
      case (Inr cur_h)
      with assms Pair Some show ?thesis
        by (auto simp: modified_file_def Let_def split: if_splits)
    qed
  qed
qed

lemma modified_file_changed:
  assumes "map_of (db l) rel = Some ent" and "hash_file L w (path meta) = Inr cur_h"
    and "hash ent \<noteq> Some cur_h" and "modified_file L cfg au (rel, meta) l w = (r, w')"
  shows "classifications rel (security_log w')
           = classifications rel (security_log w) @ [Corrupted] \<and>
         mails_about rel (outbox w')
           = mails_about rel (outbox w)
               @ [(alert_subject rel, alert_body rel (hash ent) cur_h, recipient cfg)] \<and>
         (\<exists>l'. r = Inr l')"
  using assms
  by (auto simp: modified_file_def Let_def classifications_corrupted classifications_updated
      split: if_splits)


lemma first_loop_view:
  assumes "map_of (db l) rel = Some ent" and "for_each (new_file L au) xs l w = (Inr l', w')"
  shows "map_of (db l') rel = Some ent \<and>
         classifications rel (security_log w') = classifications rel (security_log w) \<and>
         outbox w' = outbox w \<and>
         bad_events (security_log w') = bad_events (security_log w) \<and>
         corrupted l' = corrupted l \<and> same_files w w'"
proof -
  let ?I = "\<lambda>l1 w1. map_of (db l1) rel = Some ent \<and>
         classifications rel (security_log w1) = classifications rel (security_log w) \<and>
         outbox w1 = outbox w \<and>
         bad_events (security_log w1) = bad_events (security_log w) \<and>
         corrupted l1 = corrupted l \<and> same_files w w1"
  have "(for_each (new_file L au) xs l w = (Inr l', w') \<longrightarrow> ?I l' w') \<and>
        (for_each (new_file L au) xs l w = (Inl undefined, w') \<longrightarrow> True)"
  proof (rule for_each_invariant [where I = ?I and E = "\<lambda>w1. True"])
    show "?I l w" using assms(1) by simp
  next
    fix x l0 w0 l1 w1
    assume i: "?I l0 w0" and b: "new_file L au x l0 w0 = (Inr l1, w1)"
    from i have "map_of (db l0) rel = Some ent" by simp
    from new_file_view [OF this b] new_file_frame [OF b] i
    show "?I l1 w1" by (auto intro: same_files_trans)
  qed simp
  with assms(2) show ?thesis by simp
qed

lemma second_loop_view:
  assumes "rel \<notin> set fs" and "for_each (deleted_file au) fs l w = (Inr l', w')"
  shows "map_of (db l') rel = map_of (db l) rel \<and>
         classifications rel (security_log w') = classifications rel (security_log w) \<and>
         outbox w' = outbox w \<and>
         bad_events (security_log w') = bad_events (security_log w) \<and>
         corrupted l' = corrupted l \<and> same_files w w'"
proof -
  let ?I = "\<lambda>l1 w1. map_of (db l1) rel = map_of (db l) rel \<and>
         classifications rel (security_log w1) = classifications rel (security_log w) \<and>
         outbox w1 = outbox w \<and>
         bad_events (security_log w1) = bad_events (security_log w) \<and>
         corrupted l1 = corrupted l \<and> same_files w w1"
  have "(for_each (deleted_file au) fs l w = (Inr l', w') \<longrightarrow> ?I l' w') \<and>
        (for_each (deleted_file au) fs l w = (Inl undefined, w') \<longrightarrow> True)"
  proof (rule for_each_invariant [where I = ?I and E = "\<lambda>w1. True"])
    show "?I l w" by simp
  next
    fix f l0 w0 l1 w1
    assume m: "f \<in> set fs" and i: "?I l0 w0" and b: "deleted_file au f l0 w0 = (Inr l1, w1)"
    from m assms(1) have "f \<noteq> rel" by auto
    from deleted_file_view [OF this b] deleted_file_frame [OF b] i
    show "?I l1 w1" by (auto intro: same_files_trans)
  qed simp
  with assms(2) show ?thesis by simp
qed

lemma third_loop_returns:
  "\<exists>l'. fst (for_each (modified_file L cfg au) xs l w) = Inr l'"
proof (induction xs arbitrary: l w)
  case Nil
  show ?case by simp
next
  case (Cons x xs)
  obtain r1 w1 where b: "modified_file L cfg au x l w = (r1, w1)"
    by (cases "modified_file L cfg au x l w")
  with modified_file_returns [of L cfg au x l w] obtain l1 where "r1 = Inr l1" by auto
  with b Cons.IH [of l1 w1] show ?case by simp
qed

lemma third_loop_other:
  assumes "rel \<notin> set (map fst xs)" and "for_each (modified_file L cfg au) xs l w = (Inr l', w')"
  shows "classifications rel (security_log w') = classifications rel (security_log w) \<and>
         mails_about rel (outbox w') = mails_about rel (outbox w) \<and>
         map_of (db l') rel = map_of (db l) rel"
proof -
  let ?I = "\<lambda>l1 w1. classifications rel (security_log w1) = classifications rel (security_log w) \<and>
         mails_about rel (outbox w1) = mails_about rel (outbox w) \<and>
         map_of (db l1) rel = map_of (db l) rel"
  have "(for_each (modified_file L cfg au) xs l w = (Inr l', w') \<longrightarrow> ?I l' w') \<and>
        (for_each (modified_file L cfg au) xs l w = (Inl undefined, w') \<longrightarrow> True)"
  proof (rule for_each_invariant [where I = ?I and E = "\<lambda>w1. True"])
    show "?I l w" by simp
  next
    fix x l0 w0 l1 w1
    assume m: "x \<in> set xs" and i: "?I l0 w0"
      and b: "modified_file L cfg au x l0 w0 = (Inr l1, w1)"
    from m assms(1) have "fst x \<noteq> rel" by auto
    from modified_file_other [OF this b] i show "?I l1 w1" by auto
  qed simp
  with assms(2) show ?thesis by simp
qed

lemma third_loop_tally:
  assumes "for_each (modified_file L cfg au) xs l w = (Inr l', w')"
  shows "bad_events (security_log w') + corrupted l = bad_events (security_log w) + corrupted l'"
proof -
  let ?I = "\<lambda>l1 w1. bad_events (security_log w1) + corrupted l
                      = bad_events (security_log w) + corrupted l1"
  have "(for_each (modified_file L cfg au) xs l w = (Inr l', w') \<longrightarrow> ?I l' w') \<and>
        (for_each (modified_file L cfg au) xs l w = (Inl undefined, w') \<longrightarrow> True)"
  proof (rule for_each_invariant [where I = ?I and E = "\<lambda>w1. True"])
    show "?I l w" by simp
  next
    fix x l0 w0 l1 w1
    assume i: "?I l0 w0" and b: "modified_file L cfg au x l0 w0 = (Inr l1, w1)"
    from modified_file_tally [OF b] i show "?I l1 w1" by auto
  qed simp
  with assms show ?thesis by simp
qed

lemma third_loop_changed:
  assumes "distinct (map fst xs)" and "map_of xs rel = Some meta"
    and "map_of (db l) rel = Some ent" and "hash_file L w (path meta) = Inr cur_h"
    and "hash ent \<noteq> Some cur_h"
    and "for_each (modified_file L cfg au) xs l w = (Inr l', w')"
  shows "classifications rel (security_log w')
           = classifications rel (security_log w) @ [Corrupted] \<and>
         mails_about rel (outbox w')
           = mails_about rel (outbox w)
               @ [(alert_subject rel, alert_body rel (hash ent) cur_h, recipient cfg)]"
  using assms
proof (induction xs arbitrary: l w)
  case Nil
  then show ?case by simp
next
  case (Cons x xs)
  obtain r0 m0 where x: "x = (r0, m0)" by (cases x)
  obtain r1 w1 where b: "modified_file L cfg au (r0, m0) l w = (r1, w1)"
    by (cases "modified_file L cfg au (r0, m0) l w")
  with modified_file_returns [of L cfg au "(r0, m0)" l w] obtain l1 where r1: "r1 = Inr l1"
    by auto
  from Cons.prems(6) x b r1 have rest: "for_each (modified_file L cfg au) xs l1 w1 = (Inr l', w')"
    by simp
  show ?case
  proof (cases "r0 = rel")
    case True
    with Cons.prems(2) x have m: "m0 = meta" by simp
    from Cons.prems(1) x True have "rel \<notin> set (map fst xs)" by simp
    from third_loop_other [OF this rest]
      modified_file_changed [OF Cons.prems(3) Cons.prems(4) Cons.prems(5), of cfg au r1 w1]
      b True m
    show ?thesis by simp
  next
    case False
    from modified_file_other [of "(r0, m0)" rel L cfg au l w r1 w1] False b r1
    have o: "classifications rel (security_log w1) = classifications rel (security_log w)"
      "mails_about rel (outbox w1) = mails_about rel (outbox w)"
      "map_of (db l1) rel = map_of (db l) rel"
      by simp_all
    from modified_file_frame [OF b] Cons.prems(4)
    have h: "hash_file L w1 (path meta) = Inr cur_h" by (simp add: hash_file_same_files)
    from Cons.prems(1) have d: "distinct (map fst xs)" by simp
    from Cons.prems(2) x False have mo: "map_of xs rel = Some meta" by simp
    from o(3) Cons.prems(3) have e: "map_of (db l1) rel = Some ent" by simp
    from Cons.IH [OF d mo e h Cons.prems(5) rest] o show ?thesis by simp
  qed
qed

lemma second_loop_returns:
  "\<exists>l'. fst (for_each (deleted_file au) fs l w) = Inr l'"
proof (induction fs arbitrary: l w)
  case Nil
  show ?case by simp
next
  case (Cons f fs)
  obtain r1 w1 where b: "deleted_file au f l w = (r1, w1)"
    by (cases "deleted_file au f l w")
  then obtain l1 where "r1 = Inr l1"
    by (auto simp: deleted_file_def Let_def split: if_splits)
  with b Cons.IH [of l1 w1] show ?case by simp
qed

lemma distinct_scan_files:
  "distinct (map fst acc) \<Longrightarrow> scan_files xs acc = Inr cur \<Longrightarrow> distinct (map fst cur)"
proof (induction xs acc rule: scan_files.induct)
  case (1 files)
  then show ?case by simp
next
  case (2 rel full st rest files)
  show ?case
  proof (cases st)
    case (Inl m)
    with "2.prems" show ?thesis by simp
  next
    case (Inr ms)
    obtain mt sz where ms: "ms = (mt, sz)" by (cases ms)
    from "2.prems"(1)
    have "distinct (map fst (AList.update rel \<lparr>path = full, mtime_m = mt, size_m = sz\<rparr> files))"
      by (simp add: distinct_update)
    moreover from "2.prems"(2) Inr ms
    have "scan_files rest (AList.update rel \<lparr>path = full, mtime_m = mt, size_m = sz\<rparr> files)
            = Inr cur"
      by simp
    ultimately show ?thesis using "2.IH" [OF Inr ms [symmetric]] by simp
  qed
qed

lemma distinct_scan_directory:
  "scan_directory w dirpath = Inr cur \<Longrightarrow> distinct (map fst cur)"
  unfolding scan_directory_def by (rule distinct_scan_files [of "[]"]) simp_all

lemma save_hash_db_quiet:
  assumes "save_hash_db p d w = (r, w')"
  shows "security_log w' = security_log w \<and> outbox w' = outbox w"
  using assms
  by (auto simp: save_hash_db_def write_json_def split: option.splits prod.splits)

text \<open>A check that returns has passed every stage.\<close>

lemma perform_check_stages:
  assumes run: "perform_check L dirpath p cfg au w = (Inr res, w')"
  obtains cur d l1 w1 l2 w2 l3 w3 where
    "isdir w dirpath" and "scan_directory w dirpath = Inr cur" and "load_hash_db w p = Inr d"
    and "for_each (new_file L au) cur
           \<lparr>db = d, safe = 0, corrupted = 0, last_anomaly = None\<rparr> w = (Inr l1, w1)"
    and "for_each (deleted_file au)
           (filter (\<lambda>f. f \<notin> set (map fst cur)) (map fst (db l1))) l1 w1 = (Inr l2, w2)"
    and "for_each (modified_file L cfg au) cur l2 w2 = (Inr l3, w3)"
    and "save_hash_db p (db l3) w3 = (Inr (), w')"
    and "res = (safe l3, corrupted l3, last_anomaly l3)"
  using run
proof (cases rule: perform_check_cases)
  case no_dir
  from perform_check_no_dir [OF no_dir(1), of L p cfg au] run show ?thesis by simp
next
  case (scan_error e)
  from perform_check_scan_error [OF scan_error(1,2), of L p cfg au] run show ?thesis by simp
next
  case (load_error cur e)
  from perform_check_load_error [OF load_error(1,2,3), of L cfg au] run show ?thesis by simp
next
  case (first_error cur d e)
  then show ?thesis by simp
next
  case (second_error cur d l1 w1 e)
  from perform_check_second_error [OF second_error(1,2,3,4,5), of cfg] run
  show ?thesis by simp
next
  case (third_error cur d l1 w1 l2 w2 e)
  from perform_check_third_error [OF third_error(1,2,3,4,5,6)] run show ?thesis by simp
next
  case (saved cur d l1 w1 l2 w2 l3 w3 r4)
  from saved(8) have "r4 = Inr ()" and "res = (safe l3, corrupted l3, last_anomaly l3)"
    by (cases r4; simp)+
  with saved that [of cur d l1 w1 l2 w2 l3 w3] show ?thesis by simp
qed

lemma alert_body_mentions:
  "\<exists>a b c. alert_body rel (Some base_h) cur_h = a @ base_h @ b @ cur_h @ c"
proof -
  have "alert_body rel (Some base_h) cur_h
          = (''File '' @ rel @ '' changed.'' @ [CHR 0x0A] @ ''Baseline hash: '') @ base_h
             @ ([CHR 0x0A] @ ''Current hash: '') @ cur_h @ []"
    by (simp add: alert_body_def py_str_def)
  then show ?thesis by blast
qed


text \<open>
  C4. In \<open>locked_world\<close> the path \<open>report.csv\<close> is in the snapshot and in the baseline, and
  its digest \<open>d2\<close> is not the digest \<open>d1\<close> of the baseline. One check logs no
  classification of \<open>report.csv\<close> and sends no mail: it raises in its first loop, which
  takes the digest of the new file \<open>new.bin\<close> outside any \<open>try\<close>, before a file of the
  baseline is compared.
\<close>

theorem changed_file_not_reached:
  "scan_directory locked_world ''secure_files''
     = Inr [(''report.csv'', \<lparr>path = ''secure_files/report.csv'', mtime_m = 2, size_m = 2\<rparr>),
            (''new.bin'', \<lparr>path = ''secure_files/new.bin'', mtime_m = 3, size_m = 9\<rparr>)] \<and>
   load_hash_db locked_world ''hash_db.json'' = Inr base1 \<and>
   map_of base1 ''report.csv'' = Some \<lparr>hash = Some ''d1'', mtime = 1, size_e = 5\<rparr> \<and>
   hash_file toy_library locked_world ''secure_files/report.csv'' = Inr ''d2'' \<and>
   fst (perform_check toy_library ''secure_files'' ''hash_db.json'' None False locked_world)
     = Inl (OSError ''Permission denied'') \<and>
   classifications ''report.csv''
     (security_log
        (snd (perform_check toy_library ''secure_files'' ''hash_db.json'' None False locked_world)))
     = [] \<and>
   outbox (snd (perform_check toy_library ''secure_files'' ''hash_db.json'' None False locked_world))
     = []"
  by (simp add: run_defs example_defs classifications_def List.map_filter_def)

text \<open>
  A check whose first loop comes to its end does what is asked for a changed file, also
  when the save at the end fails: it logs exactly one classification of the path,
  \<open>Corrupted\<close>, and calls \<open>send_email\<close> exactly once for the path, with a body that holds
  the digest of the baseline and the current digest; the counter \<open>corrupted\<close> that it
  returns is the number of \<open>Corrupted\<close> and \<open>Unreadable\<close> lines it logged.
\<close>

lemma changed_file_alerted_once:
  assumes run: "perform_check L dirpath p smtp_cfg auto_update w = (r, w')"
    and dir: "isdir w dirpath"
    and snap: "scan_directory w dirpath = Inr cur" "map_of cur rel = Some meta"
    and base: "load_hash_db w p = Inr d" "map_of d rel = Some ent"
    and digests: "hash_file L w (path meta) = Inr cur_h" "hash ent = Some base_h"
      "cur_h \<noteq> base_h"
    and first: "for_each (new_file L auto_update) cur
           \<lparr>db = d, safe = 0, corrupted = 0, last_anomaly = None\<rparr> w = (Inr l1, w1)"
  shows "classifications rel (security_log w')
           = classifications rel (security_log w) @ [Corrupted] \<and>
         mails_about rel (outbox w')
           = mails_about rel (outbox w)
               @ [(alert_subject rel, alert_body rel (Some base_h) cur_h, recipient smtp_cfg)] \<and>
         (\<exists>a b c. alert_body rel (Some base_h) cur_h = a @ base_h @ b @ cur_h @ c) \<and>
         (\<forall>s c la. r = Inr (s, c, la) \<longrightarrow>
            bad_events (security_log w') = bad_events (security_log w) + c)"
proof -
  let ?del = "filter (\<lambda>f. f \<notin> set (map fst cur)) (map fst (db l1))"
  obtain r2 w2 where two': "for_each (deleted_file auto_update) ?del l1 w1 = (r2, w2)"
    by (cases "for_each (deleted_file auto_update) ?del l1 w1")
  with second_loop_returns [of auto_update ?del l1 w1] obtain l2 where "r2 = Inr l2" by auto
  with two' have two: "for_each (deleted_file auto_update) ?del l1 w1 = (Inr l2, w2)" by simp
  obtain r3 w3 where three': "for_each (modified_file L smtp_cfg auto_update) cur l2 w2 = (r3, w3)"
    by (cases "for_each (modified_file L smtp_cfg auto_update) cur l2 w2")
  with third_loop_returns [of L smtp_cfg auto_update cur l2 w2] obtain l3 where "r3 = Inr l3"
    by auto
  with three' have three: "for_each (modified_file L smtp_cfg auto_update) cur l2 w2 = (Inr l3, w3)"
    by simp
  obtain r4 w4 where four: "save_hash_db p (db l3) w3 = (r4, w4)"
    by (cases "save_hash_db p (db l3) w3")
  from perform_check_save [OF dir snap(1) base(1) first two three four] run
  have w4: "w4 = w'"
    and res: "r = (case r4 of Inl e \<Rightarrow> Inl e
                   | Inr u \<Rightarrow> Inr (safe l3, corrupted l3, last_anomaly l3))"
    by simp_all
  from base(2)
  have e0: "map_of (db \<lparr>db = d, safe = 0, corrupted = 0, last_anomaly = None\<rparr>) rel = Some ent"
    by simp
  from first_loop_view [OF e0 first]
  have v1: "map_of (db l1) rel = Some ent"
    "classifications rel (security_log w1) = classifications rel (security_log w)"
    "outbox w1 = outbox w" "bad_events (security_log w1) = bad_events (security_log w)"
    "corrupted l1 = 0" "same_files w w1"
    by simp_all
  from snap(2) have "rel \<in> set (map fst cur)"
    by (metis map_of_eq_None_iff option.distinct(1) set_map)
  then have "rel \<notin> set ?del" by simp
  from second_loop_view [OF this two] v1
  have v2: "map_of (db l2) rel = Some ent"
    "classifications rel (security_log w2) = classifications rel (security_log w)"
    "outbox w2 = outbox w" "bad_events (security_log w2) = bad_events (security_log w)"
    "corrupted l2 = 0" "same_files w w2"
    by (auto intro: same_files_trans)
  from v2(6) digests(1) have h: "hash_file L w2 (path meta) = Inr cur_h"
    by (simp add: hash_file_same_files)
  from digests(2,3) have ne: "hash ent \<noteq> Some cur_h" by auto
  from third_loop_changed [OF distinct_scan_directory [OF snap(1)] snap(2) v2(1) h ne three]
    v2 digests(2)
  have v3: "classifications rel (security_log w3)
              = classifications rel (security_log w) @ [Corrupted]"
    "mails_about rel (outbox w3)
       = mails_about rel (outbox w)
           @ [(alert_subject rel, alert_body rel (Some base_h) cur_h, recipient smtp_cfg)]"
    by simp_all
  from third_loop_tally [OF three] v2
  have t3: "bad_events (security_log w3) = bad_events (security_log w) + corrupted l3" by simp
  from res have c: "\<forall>s c la. r = Inr (s, c, la) \<longrightarrow> c = corrupted l3"
    by (cases r4) simp_all
  from save_hash_db_quiet [OF four] w4 v3 t3 c alert_body_mentions [of rel base_h cur_h]
  show ?thesis by simp
qed

text \<open>The run of the specification's scenario: \<open>report.csv\<close>, \<open>d1\<close> and \<open>d2\<close>.\<close>

lemma changed_file_alerted_once_example:
  "fst (perform_check toy_library ''secure_files'' ''hash_db.json'' None False changed_world)
     = Inr (0, 1, Some ''2026-01-01 00:00:00'') \<and>
   hash_file toy_library changed_world ''secure_files/report.csv'' = Inr ''d2'' \<and>
   classifications ''report.csv''
     (security_log
        (snd (perform_check toy_library ''secure_files'' ''hash_db.json'' None False changed_world)))
     = [Corrupted] \<and>
   bad_events
     (security_log
        (snd (perform_check toy_library ''secure_files'' ''hash_db.json'' None False changed_world)))
     = 1 \<and>
   mails_about ''report.csv''
     (outbox (snd (perform_check toy_library ''secure_files'' ''hash_db.json'' None False changed_world)))
     = [(alert_subject ''report.csv'', alert_body ''report.csv'' (Some ''d1'') ''d2'',
         Some ''admin@example.com'')]"
  by (simp add: run_defs example_defs classifications_def List.map_filter_def outcome_of_def
      bad_events_def mails_about_def)

subsection \<open>A file that cannot be read\<close>

text \<open>
  In the third loop a failure of \<open>hash_file\<close> is caught: the loop logs the line for an
  unreadable file, counts it in \<open>corrupted\<close>, leaves the baseline as it is and goes on.
\<close>

lemma unreadable_common_file:
  assumes "map_of (db l) rel = Some ent" and "hash_file L w (path meta) = Inl e"
  shows "modified_file L cfg au (rel, meta) l w
           = (Inr (l\<lparr>last_anomaly := Some (clock w), corrupted := corrupted l + 1\<rparr>),
              logger_alert (read_failure e) (Some rel) w)"
  using assms by (simp add: modified_file_def logger_alert_def)

text \<open>
  C5. The first loop takes the digest of a new file outside any \<open>try\<close>. In
  \<open>locked_world\<close> the new file \<open>new.bin\<close> cannot be read: the check logs that the file is
  unknown and raises the \<open>OSError\<close> of the read. The scan stops there; \<open>report.csv\<close>,
  which has changed, is never compared.
\<close>

theorem unreadable_new_file_aborts:
  "content locked_world ''secure_files/new.bin'' = Inl ''Permission denied'' \<and>
   fst (perform_check toy_library ''secure_files'' ''hash_db.json'' None False locked_world)
     = Inl (OSError ''Permission denied'') \<and>
   security_log
     (snd (perform_check toy_library ''secure_files'' ''hash_db.json'' None False locked_world))
     = [(ALERT, ''detected as unknown.'', Some ''new.bin'')] \<and>
   fst (main 0 toy_library
          \<lparr>args_dir = ''secure_files'', args_hash_db = ''hash_db.json'', args_watch = False,
            args_interval = 5, args_auto_update = False, args_smtp_config = None\<rparr> locked_world)
     = 1"
  by (simp add: run_defs example_defs main_def create_baseline_def load_smtp_config_def)

subsection \<open>Every path once, without auto-update\<close>

text \<open>
  With \<open>auto_update\<close> false \<open>db\<close> stays as it was loaded, and a check that runs to its end
  logs for every path exactly the classification that the specification gives it: at most
  one.
\<close>

lemma classifications_lines:
  "classifications rel ((ALERT, ''detected as unknown.'', file_name (Some rel)) # evs)
     = NewFile # classifications rel evs"
  "classifications rel ((ALERT, ''deleted from monitored folder.'', file_name (Some rel)) # evs)
     = DeletedFile # classifications rel evs"
  "classifications rel ((ALERT, read_failure e, file_name (Some rel)) # evs)
     = Unreadable # classifications rel evs"
  "classifications rel ((INFO, ''verified OK.'', file_name (Some rel)) # evs)
     = Verified # classifications rel evs"
  by (simp_all add: classifications_def List.map_filter_def outcome_of_def read_failure_def)

lemma new_file_once:
  assumes "new_file L False (r0, m) l w = (Inr l', w')"
  shows "classifications rel (security_log w')
           = classifications rel (security_log w)
               @ (if r0 = rel \<and> rel \<notin> set (map fst (db l)) then [NewFile] else [])"
proof (cases "r0 = rel")
  case True
  with assms show ?thesis
    by (auto simp: new_file_def Let_def classifications_lines split: if_splits sum.splits)
next
  case False
  with assms show ?thesis
    by (auto simp: new_file_def Let_def classifications_other split: if_splits sum.splits)
qed

lemma deleted_file_once:
  assumes "deleted_file False f l w = (Inr l', w')"
  shows "classifications rel (security_log w')
           = classifications rel (security_log w) @ (if f = rel then [DeletedFile] else [])"
  using assms
  by (auto simp: deleted_file_def Let_def classifications_lines classifications_other)

lemma modified_file_once:
  assumes "modified_file L cfg False (r0, m) l w = (Inr l', w')"
  shows "classifications rel (security_log w')
           = classifications rel (security_log w)
               @ (if r0 = rel
                  then (case map_of (db l) rel of None \<Rightarrow> [] | Some ent \<Rightarrow> [verdict L w m ent])
                  else [])"
proof (cases "map_of (db l) r0")
  case None
  with assms show ?thesis by (auto simp: modified_file_def)
next
  case (Some e0)
  show ?thesis
  proof (cases "hash_file L w (path m)")
    case (Inl e)
    with assms Some show ?thesis
      by (auto simp: modified_file_def Let_def verdict_def classifications_lines
          classifications_other)
  next
    case (Inr cur_h)
    with assms Some show ?thesis
      by (auto simp: modified_file_def Let_def verdict_def classifications_lines
          classifications_other classifications_corrupted split: if_splits)
  qed
qed


lemma for_each_Cons_Inr:
  assumes "for_each body (x # xs) l w = (Inr l', w')"
  obtains l1 w1 where "body x l w = (Inr l1, w1)" and "for_each body xs l1 w1 = (Inr l', w')"
  using assms by (auto split: prod.splits sum.splits)

lemma verdict_same_files: "same_files w w' \<Longrightarrow> verdict L w' m ent = verdict L w m ent"
  by (simp add: verdict_def hash_file_same_files)

lemma first_loop_once:
  assumes "distinct (map fst xs)" and "for_each (new_file L False) xs l w = (Inr l', w')"
  shows "classifications rel (security_log w')
           = classifications rel (security_log w)
               @ (if rel \<in> set (map fst xs) \<and> rel \<notin> set (map fst (db l)) then [NewFile] else [])"
  using assms
proof (induction xs arbitrary: l w)
  case Nil
  then show ?case by simp
next
  case (Cons x xs)
  obtain r0 m where x: "x = (r0, m)" by (cases x)
  from Cons.prems(2) obtain l1 w1 where
    b: "new_file L False x l w = (Inr l1, w1)"
    and rest: "for_each (new_file L False) xs l1 w1 = (Inr l', w')"
    by (rule for_each_Cons_Inr)
  from new_file_keeps_db [OF b] have d1: "db l1 = db l" .
  from Cons.prems(1) have d: "distinct (map fst xs)" by simp
  from Cons.prems(1) x have fresh: "r0 \<notin> set (map fst xs)" by simp
  from Cons.IH [OF d rest] new_file_once [of L r0 m l w l1 w1 rel] b x d1 fresh
  show ?case by auto
qed

lemma second_loop_once:
  assumes "distinct fs" and "for_each (deleted_file False) fs l w = (Inr l', w')"
  shows "classifications rel (security_log w')
           = classifications rel (security_log w) @ (if rel \<in> set fs then [DeletedFile] else [])"
  using assms
proof (induction fs arbitrary: l w)
  case Nil
  then show ?case by simp
next
  case (Cons f fs)
  from Cons.prems(2) obtain l1 w1 where
    b: "deleted_file False f l w = (Inr l1, w1)"
    and rest: "for_each (deleted_file False) fs l1 w1 = (Inr l', w')"
    by (rule for_each_Cons_Inr)
  from Cons.prems(1) have d: "distinct fs" and fresh: "f \<notin> set fs" by simp_all
  from Cons.IH [OF d rest] deleted_file_once [OF b, of rel] fresh
  show ?case by auto
qed

lemma third_loop_once:
  assumes "distinct (map fst xs)" and "for_each (modified_file L cfg False) xs l w = (Inr l', w')"
  shows "classifications rel (security_log w')
           = classifications rel (security_log w)
               @ (case map_of xs rel of
                    None \<Rightarrow> []
                  | Some meta \<Rightarrow>
                      (case map_of (db l) rel of None \<Rightarrow> [] | Some ent \<Rightarrow> [verdict L w meta ent]))"
  using assms
proof (induction xs arbitrary: l w)
  case Nil
  then show ?case by simp
next
  case (Cons x xs)
  obtain r0 m where x: "x = (r0, m)" by (cases x)
  from Cons.prems(2) obtain l1 w1 where
    b: "modified_file L cfg False x l w = (Inr l1, w1)"
    and rest: "for_each (modified_file L cfg False) xs l1 w1 = (Inr l', w')"
    by (rule for_each_Cons_Inr)
  from modified_file_keeps_db [OF b] have d1: "db l1 = db l" .
  from modified_file_frame [OF b] have v: "\<And>meta ent. verdict L w1 meta ent = verdict L w meta ent"
    by (simp add: verdict_same_files)
  from Cons.prems(1) have d: "distinct (map fst xs)" by simp
  from Cons.prems(1) x have "r0 \<notin> set (map fst xs)" by simp
  then have fresh: "map_of xs r0 = None" by (simp add: map_of_eq_None_iff)
  from Cons.IH [OF d rest] modified_file_once [of L cfg r0 m l w l1 w1 rel] b x d1 fresh v
  show ?case by (auto split: option.splits)
qed

lemma check_classifies_once:
  assumes run: "perform_check L dirpath p cfg False w = (Inr res, w')"
    and snap: "scan_directory w dirpath = Inr cur"
    and base: "load_hash_db w p = Inr d" and dict: "distinct (map fst d)"
  shows "classifications rel (security_log w')
           = classifications rel (security_log w) @ spec_outcomes L w cur d rel"
proof -
  from run obtain cur' d' l1 w1 l2 w2 l3 w3 where
    sc: "scan_directory w dirpath = Inr cur'"
    and ld: "load_hash_db w p = Inr d'"
    and one: "for_each (new_file L False) cur'
           \<lparr>db = d', safe = 0, corrupted = 0, last_anomaly = None\<rparr> w = (Inr l1, w1)"
    and two: "for_each (deleted_file False)
           (filter (\<lambda>f. f \<notin> set (map fst cur')) (map fst (db l1))) l1 w1 = (Inr l2, w2)"
    and three: "for_each (modified_file L cfg False) cur' l2 w2 = (Inr l3, w3)"
    and four: "save_hash_db p (db l3) w3 = (Inr (), w')"
    by (rule perform_check_stages)
  from ld base have dd: "d' = d" by simp
  from sc snap have cc: "cur' = cur" by simp
  from snap have dc: "distinct (map fst cur)" by (rule distinct_scan_directory)
  from one first_loop_no_update [of L cur' _ w l1 w1] dd
  have k1: "db l1 = d" "same_files w w1" by simp_all
  from two second_loop_no_update [of _ l1 w1 l2 w2] k1
  have k2: "db l2 = d" "same_files w w2" by (auto intro: same_files_trans)
  from first_loop_once [OF dc one [unfolded cc], of rel] dd
  have c1: "classifications rel (security_log w1)
              = classifications rel (security_log w)
                  @ (if rel \<in> set (map fst cur) \<and> rel \<notin> set (map fst d) then [NewFile] else [])"
    by simp
  from dict k1 have "distinct (filter (\<lambda>f. f \<notin> set (map fst cur)) (map fst (db l1)))" by simp
  from second_loop_once [OF this two [unfolded cc], of rel] k1
  have c2: "classifications rel (security_log w2)
              = classifications rel (security_log w1)
                  @ (if rel \<in> set (map fst d) \<and> rel \<notin> set (map fst cur) then [DeletedFile] else [])"
    by auto
  from third_loop_once [OF dc three [unfolded cc], of rel] k2
  have c3: "classifications rel (security_log w3)
              = classifications rel (security_log w2)
                  @ (case map_of cur rel of
                       None \<Rightarrow> []
                     | Some meta \<Rightarrow>
                         (case map_of d rel of None \<Rightarrow> [] | Some ent \<Rightarrow> [verdict L w meta ent]))"
    by (auto simp: verdict_same_files split: option.splits)
  have m1: "rel \<in> set (map fst cur) \<longleftrightarrow> map_of cur rel \<noteq> None"
    by (simp add: map_of_eq_None_iff)
  have m2: "rel \<in> set (map fst d) \<longleftrightarrow> map_of d rel \<noteq> None"
    by (simp add: map_of_eq_None_iff)
  from save_hash_db_quiet [OF four] c1 c2 c3 show ?thesis
    unfolding m1 m2 by (auto simp: spec_outcomes_def split: option.splits)
qed

subsection \<open>A new file under auto-update\<close>

text \<open>
  C1. In \<open>fresh_world\<close> the baseline is empty and the directory holds \<open>a.txt\<close>. With
  \<open>auto_update\<close> the first loop logs the file as unknown and puts it into \<open>db\<close>; the third
  loop then finds it in \<open>db\<close>, takes its digest again, logs it as verified and counts it in
  \<open>safe\<close>. The path gets two classifications in one check.
\<close>

theorem new_file_classified_twice:
  "fst (perform_check toy_library ''secure_files'' ''hash_db.json'' None True fresh_world)
     = Inr (1, 0, Some ''2026-01-01 00:00:00'') \<and>
   security_log
     (snd (perform_check toy_library ''secure_files'' ''hash_db.json'' None True fresh_world))
     = [(ALERT, ''detected as unknown.'', Some ''a.txt''),
        (INFO, ''added to baseline (auto-update).'', Some ''a.txt''),
        (INFO, ''verified OK.'', Some ''a.txt'')] \<and>
   classifications ''a.txt''
     (security_log
        (snd (perform_check toy_library ''secure_files'' ''hash_db.json'' None True fresh_world)))
     = [NewFile, Verified]"
  by (simp add: run_defs example_defs classifications_def List.map_filter_def outcome_of_def)

text \<open>
  C2. In the same run the path \<open>a.txt\<close> passes the test of the first loop and the test of
  the third: the set of the new paths and the set of the paths in both are not disjoint,
  although the baseline that was loaded holds no path at all.
\<close>

theorem partition_sets_overlap:
  "load_hash_db fresh_world ''hash_db.json'' = Inr [] \<and>
   scan_directory fresh_world ''secure_files''
     = Inr [(''a.txt'', \<lparr>path = ''secure_files/a.txt'', mtime_m = 1, size_m = 1\<rparr>)] \<and>
   only_in_snapshot
     (security_log
        (snd (perform_check toy_library ''secure_files'' ''hash_db.json'' None True fresh_world)))
     = {''a.txt''} \<and>
   only_in_baseline
     (security_log
        (snd (perform_check toy_library ''secure_files'' ''hash_db.json'' None True fresh_world)))
     = {} \<and>
   in_both
     (security_log
        (snd (perform_check toy_library ''secure_files'' ''hash_db.json'' None True fresh_world)))
     = {''a.txt''}"
  by (simp add: run_defs example_defs only_in_snapshot_def only_in_baseline_def in_both_def
      handled_as_def List.map_filter_def outcome_of_def)

end

